theory Spec2Isabelle
  imports Main
begin

section \<open>Data model (src/mapState.js, Unit class of src/src/viewState.js)\<close>

text \<open>
  JavaScript objects have identity and are mutated in place: a unit is shared between the
  roster, the selection and the cell it stands on. Units therefore live in a store
  (\<open>heap\<close>) and are referred to by a reference \<open>uref\<close>; \<open>None\<close> is JavaScript's
  \<open>null\<close>. A cell object is stored at exactly one place of the matrix, so a reference to
  a cell is its pair of matrix indices. JavaScript numbers are modelled as \<open>int\<close>.
  The rendering coordinates \<open>x\<close>, \<open>y\<close> of a cell are floating point values that no
  operation below reads; they are left out of the record.
\<close>

type_synonym uref = nat

record Position =
  row :: int
  col :: int

record Unit =
  type :: string
  owner :: string
  health :: int
  maxHealth :: int
  attack :: int
  movement :: int
  movementRemaining :: int
  hasAttacked :: bool
  position :: Position

record Cell =
  rowIndex :: int
  cellIndex :: int
  isVisible :: bool
  isActive :: bool
  isHighlighted :: bool
  unit :: "uref option"

text \<open>
  The module-level object \<open>mapState\<close>, together with the unit store and the number of
  \<open>runAITurn\<close> callbacks that \<open>setTimeout\<close> has scheduled and that have not fired yet.
\<close>

record mapState =
  cells :: "Cell list list"
  activeHexagon :: "(int \<times> int) option"
  units :: "uref list"
  selectedUnit :: "uref option"
  currentTurn :: string
  heap :: "uref \<Rightarrow> Unit"
  aiTimers :: nat

datatype error = TypeError

subsection \<open>Unit methods\<close>

definition newUnit :: "string \<Rightarrow> string \<Rightarrow> int \<Rightarrow> int \<Rightarrow> int \<Rightarrow> Unit" where
  "newUnit ty ow hp atk mv =
     \<lparr> type = ty, owner = ow, health = hp, maxHealth = hp, attack = atk, movement = mv,
       movementRemaining = mv, hasAttacked = False,
       position = \<lparr> row = -1, col = -1 \<rparr> \<rparr>"

definition resetTurn :: "Unit \<Rightarrow> Unit" where
  "resetTurn u = u\<lparr> movementRemaining := movement u, hasAttacked := False \<rparr>"

definition move :: "int \<Rightarrow> int \<Rightarrow> int \<Rightarrow> Unit \<Rightarrow> bool \<times> Unit" where
  "move r c cost u =
     (if cost \<le> movementRemaining u
      then (True, u\<lparr> position := \<lparr> row = r, col = c \<rparr>,
                     movementRemaining := movementRemaining u - cost \<rparr>)
      else (False, u))"

definition canAttack :: "Unit \<Rightarrow> bool" where
  "canAttack u = (\<not> hasAttacked u)"

definition performAttack :: "Unit \<Rightarrow> int \<times> Unit" where
  "performAttack u =
     (if canAttack u then (attack u, u\<lparr> hasAttacked := True \<rparr>) else (0, u))"

subsection \<open>Grid store\<close>

definition defaultGridConfig :: "int list list" where
  "defaultGridConfig =
     [[1, 1, 1, 1, 1, 1],
      [1, 0, 1, 1, 1, 1],
      [1, 1, 1, 0, 1, 1],
      [1, 1, 1, 1, 1, 1],
      [1, 1, 1, 1, 1, 1],
      [1, 1, 1, 0, 1, 1]]"

definition newCell :: "nat \<Rightarrow> nat \<Rightarrow> int \<Rightarrow> Cell" where
  "newCell ri ci v =
     \<lparr> rowIndex = int ri, cellIndex = int ci, isVisible = (v = 1), isActive = False,
       isHighlighted = False, unit = None \<rparr>"

definition initializeCellStates :: "int list list \<Rightarrow> mapState \<Rightarrow> mapState" where
  "initializeCellStates gridConfig s =
     s\<lparr> cells :=
          map (\<lambda>(ri, rw). map (\<lambda>(ci, v). newCell ri ci v) (enumerate 0 rw))
              (enumerate 0 gridConfig) \<rparr>"

text \<open>The state of the module when it is loaded: the literal \<open>mapState\<close> object.\<close>

definition initialMapState :: "(uref \<Rightarrow> Unit) \<Rightarrow> mapState" where
  "initialMapState h =
     \<lparr> cells = [], activeHexagon = None, units = [], selectedUnit = None,
       currentTurn = ''player'', heap = h, aiTimers = 0 \<rparr>"

text \<open>
  \<open>inBounds\<close> is the pair of index tests that \<open>toggleCellState\<close> and \<open>cellExists\<close>
  both write out; \<open>cellAt\<close> reads \<open>mapState.cells[r][c]\<close> once those tests passed and
  \<open>updCell\<close> is an assignment to a field of that cell object.
\<close>

definition inBounds :: "Cell list list \<Rightarrow> int \<Rightarrow> int \<Rightarrow> bool" where
  "inBounds cs r c =
     (0 \<le> r \<and> r < int (length cs) \<and> 0 \<le> c \<and> c < int (length (cs ! nat r)))"

definition cellAt :: "Cell list list \<Rightarrow> int \<Rightarrow> int \<Rightarrow> Cell" where
  "cellAt cs r c = cs ! nat r ! nat c"

definition updCell :: "int \<Rightarrow> int \<Rightarrow> (Cell \<Rightarrow> Cell) \<Rightarrow> mapState \<Rightarrow> mapState" where
  "updCell r c f s =
     (if inBounds (cells s) r c
      then s\<lparr> cells := (cells s)[nat r := (cells s ! nat r)[nat c := f (cellAt (cells s) r c)]] \<rparr>
      else s)"

definition toggleCellState :: "int \<Rightarrow> int \<Rightarrow> mapState \<Rightarrow> bool \<times> mapState" where
  "toggleCellState r c s =
     (if inBounds (cells s) r c \<and> isVisible (cellAt (cells s) r c)
      then (\<not> isActive (cellAt (cells s) r c),
            updCell r c (\<lambda>cell. cell\<lparr> isActive := \<not> isActive cell \<rparr>) s)
      else (False, s))"

definition cellExists :: "mapState \<Rightarrow> int \<Rightarrow> int \<Rightarrow> bool" where
  "cellExists s r c =
     (if inBounds (cells s) r c then isVisible (cellAt (cells s) r c) else False)"

definition getCell :: "mapState \<Rightarrow> int \<Rightarrow> int \<Rightarrow> Cell option" where
  "getCell s r c = (if cellExists s r c then Some (cellAt (cells s) r c) else None)"

subsection \<open>Placement manager\<close>

definition addUnit :: "uref option \<Rightarrow> mapState \<Rightarrow> bool \<times> mapState" where
  "addUnit u s =
     (case u of
        Some i \<Rightarrow> (True, s\<lparr> units := units s @ [i] \<rparr>)
      | None \<Rightarrow> (False, s))"

text \<open>
  \<open>indexOf\<close> finds the first occurrence and \<open>splice(index, 1)\<close> removes that one
  element: \<open>remove1\<close>. The roster holds unit references only, so \<open>indexOf(null)\<close> is -1.
\<close>

definition removeUnit :: "uref option \<Rightarrow> mapState \<Rightarrow> bool \<times> mapState" where
  "removeUnit u s =
     (case u of
        None \<Rightarrow> (False, s)
      | Some i \<Rightarrow>
          if i \<in> set (units s) then
            let s1 = s\<lparr> units := remove1 i (units s) \<rparr>;
                pos = position (heap s1 i);
                s2 = (if row pos \<ge> 0 \<and> col pos \<ge> 0
                      then (case getCell s1 (row pos) (col pos) of
                              Some cell \<Rightarrow> updCell (row pos) (col pos) (\<lambda>cell. cell\<lparr> unit := None \<rparr>) s1
                            | None \<Rightarrow> s1)
                      else s1);
                s3 = (if selectedUnit s2 = Some i then s2\<lparr> selectedUnit := None \<rparr> else s2)
            in (True, s3)
          else (False, s))"

text \<open>
  \<open>placeUnit(null, r, c)\<close> on a free visible cell reads \<open>unit.position\<close> of \<open>null\<close>
  and throws, before anything has been written.
\<close>

definition placeUnit :: "uref option \<Rightarrow> int \<Rightarrow> int \<Rightarrow> mapState \<Rightarrow> error + (bool \<times> mapState)" where
  "placeUnit u r c s =
     (case getCell s r c of
        None \<Rightarrow> Inr (False, s)
      | Some cell \<Rightarrow>
          if isVisible cell \<and> unit cell = None then
            (case u of
               None \<Rightarrow> Inl TypeError
             | Some i \<Rightarrow>
                 let pos = position (heap s i);
                     s1 = (if row pos \<ge> 0 \<and> col pos \<ge> 0
                           then (case getCell s (row pos) (col pos) of
                                   Some oldCell \<Rightarrow>
                                     updCell (row pos) (col pos) (\<lambda>cell. cell\<lparr> unit := None \<rparr>) s
                                 | None \<Rightarrow> s)
                           else s);
                     s2 = (if i \<notin> set (units s1) then s1\<lparr> units := units s1 @ [i] \<rparr> else s1);
                     s3 = s2\<lparr> heap := (heap s2)(i := (heap s2 i)\<lparr> position := \<lparr> row = r, col = c \<rparr> \<rparr>) \<rparr>;
                     s4 = updCell r c (\<lambda>cell. cell\<lparr> unit := Some i \<rparr>) s3
                 in Inr (True, s4))
          else Inr (False, s))"

subsection \<open>Range query\<close>

definition neighbors :: "int \<Rightarrow> int \<Rightarrow> (int \<times> int) list" where
  "neighbors r c =
     (if r mod 2 = 0
      then [(r - 1, c - 1), (r - 1, c), (r, c + 1), (r + 1, c), (r + 1, c - 1), (r, c - 1)]
      else [(r - 1, c), (r - 1, c + 1), (r, c + 1), (r + 1, c + 1), (r + 1, c), (r, c - 1)])"

text \<open>
  The \<open>while (queue.length > 0)\<close> loop: the queue of \<open>[row, col, distance]\<close> triples,
  the \<open>visited\<close> set (its string keys \<open>"r,c"\<close> are the pairs themselves) and the
  \<open>result\<close> array, which holds references to cells. An entry with \<open>k\<close> steps left
  is replaced by at most six entries with \<open>k - 1\<close> steps left, so the loop ends.
\<close>

function bfs :: "mapState \<Rightarrow> int \<Rightarrow> (Cell \<Rightarrow> bool) \<Rightarrow> (int \<times> int \<times> int) list
                  \<Rightarrow> (int \<times> int) set \<Rightarrow> (int \<times> int) list \<Rightarrow> (int \<times> int) list" where
  "bfs s rng p [] visited result = result"
| "bfs s rng p ((r, c, dist) # queue) visited result =
     (case getCell s r c of
        None \<Rightarrow> bfs s rng p queue visited result
      | Some cell \<Rightarrow>
          if \<not> isVisible cell \<or> \<not> p cell then bfs s rng p queue visited result
          else if (r, c) \<in> visited then bfs s rng p queue visited result
          else if dist \<ge> rng
               then bfs s rng p queue (insert (r, c) visited) (result @ [(r, c)])
               else bfs s rng p (queue @ map (\<lambda>(nr, nc). (nr, nc, dist + 1)) (neighbors r c))
                        (insert (r, c) visited) (result @ [(r, c)]))"
  by pat_completeness auto
termination
proof (relation "measure (\<lambda>(s, rng, p, queue, visited, result).
                   sum_list (map (\<lambda>(r, c, d). (7::nat) ^ nat (rng - d)) queue))", goal_cases)
  case (6 s rng p r c dist queue visited result cell)
  then have "nat (rng - dist) = Suc (nat (rng - (dist + 1)))"
    by simp
  then show ?case
    by (simp add: neighbors_def)
qed simp_all

declare bfs.simps [simp del]

definition getCellsInRange :: "mapState \<Rightarrow> int \<Rightarrow> int \<Rightarrow> int \<Rightarrow> (Cell \<Rightarrow> bool) \<Rightarrow> (int \<times> int) list" where
  "getCellsInRange s r0 c0 rng includePredicate =
     (if rng < 0 \<or> \<not> cellExists s r0 c0 then []
      else bfs s rng includePredicate [(r0, c0, 0)] {} [])"

subsection \<open>Turn controller and selection\<close>

definition clearHighlightedCells :: "mapState \<Rightarrow> mapState" where
  "clearHighlightedCells s =
     s\<lparr> cells := map (map (\<lambda>cell. cell\<lparr> isHighlighted := False \<rparr>)) (cells s) \<rparr>"

definition highlightMovementRange :: "uref option \<Rightarrow> mapState \<Rightarrow> mapState" where
  "highlightMovementRange u s =
     (case u of
        None \<Rightarrow> s
      | Some i \<Rightarrow>
          if movementRemaining (heap s i) \<le> 0 then s
          else
            let pos = position (heap s i);
                movementRange = movementRemaining (heap s i);
                found = getCellsInRange s (row pos) (col pos) movementRange
                          (\<lambda>cell. unit cell = Some i \<or> unit cell = None)
            in fold (\<lambda>(r, c). updCell r c (\<lambda>cell. cell\<lparr> isHighlighted := True \<rparr>)) found s)"

definition selectUnit :: "uref option \<Rightarrow> mapState \<Rightarrow> mapState" where
  "selectUnit u s = highlightMovementRange u (clearHighlightedCells (s\<lparr> selectedUnit := u \<rparr>))"

definition moveUnit :: "uref option \<Rightarrow> int \<Rightarrow> int \<Rightarrow> mapState \<Rightarrow> bool \<times> mapState" where
  "moveUnit u r c s =
     (case u of
        None \<Rightarrow> (False, s)
      | Some i \<Rightarrow>
          (case getCell s r c of
             None \<Rightarrow> (False, s)
           | Some targetCell \<Rightarrow>
               if \<not> isVisible targetCell \<or> unit targetCell \<noteq> None then (False, s)
               else
                 let cost = 1;
                     pos = position (heap s i);
                     oldCell = getCell s (row pos) (col pos);
                     (ok, moved) = move r c cost (heap s i)
                 in if ok then
                      let s1 = s\<lparr> heap := (heap s)(i := moved) \<rparr>;
                          s2 = (case oldCell of
                                  Some cell \<Rightarrow>
                                    updCell (row pos) (col pos) (\<lambda>cell. cell\<lparr> unit := None \<rparr>) s1
                                | None \<Rightarrow> s1);
                          s3 = updCell r c (\<lambda>cell. cell\<lparr> unit := Some i \<rparr>) s2;
                          s4 = clearHighlightedCells s3;
                          s5 = (if movementRemaining (heap s4 i) > 0
                                then highlightMovementRange (Some i) s4 else s4)
                      in (True, s5)
                    else (False, s)))"

definition resetOwned :: "uref \<Rightarrow> mapState \<Rightarrow> mapState" where
  "resetOwned i s =
     (if owner (heap s i) = currentTurn s
      then s\<lparr> heap := (heap s)(i := resetTurn (heap s i)) \<rparr>
      else s)"

definition endTurn :: "mapState \<Rightarrow> mapState" where
  "endTurn s =
     (let s1 = s\<lparr> selectedUnit := None \<rparr>;
          s2 = clearHighlightedCells s1;
          s3 = s2\<lparr> currentTurn := (if currentTurn s2 = ''player'' then ''ai'' else ''player'') \<rparr>;
          s4 = fold resetOwned (units s3) s3
      in if currentTurn s4 = ''ai'' then s4\<lparr> aiTimers := aiTimers s4 + 1 \<rparr> else s4)"

text \<open>A scheduled \<open>runAITurn\<close> callback fires: it only ends the turn.\<close>

definition runAITurn :: "mapState \<Rightarrow> mapState" where
  "runAITurn s = endTurn (s\<lparr> aiTimers := aiTimers s - 1 \<rparr>)"

subsection \<open>Click handling (src/interactions.js)\<close>

definition ownedBy :: "mapState \<Rightarrow> uref option \<Rightarrow> string \<Rightarrow> bool" where
  "ownedBy s u who = (case u of Some v \<Rightarrow> owner (heap s v) = who | None \<Rightarrow> False)"

definition handleCellInteraction :: "int \<Rightarrow> int \<Rightarrow> mapState \<Rightarrow> mapState" where
  "handleCellInteraction r c s =
     (let cell = cellAt (cells s) r c in
      case selectedUnit s of
        Some sel \<Rightarrow>
          if unit cell = Some sel then selectUnit None s
          else if ownedBy s (unit cell) ''player'' then selectUnit (unit cell) s
          else if isHighlighted cell then snd (moveUnit (Some sel) r c s)
          else selectUnit None s
      | None \<Rightarrow>
          if ownedBy s (unit cell) (currentTurn s) then selectUnit (unit cell) s
          else snd (toggleCellState r c s))"

text \<open>
  \<open>handleClick\<close>: \<open>dragging\<close> is \<open>appState.view.isDragging || hasMoved\<close>, \<open>beyond\<close> is
  the drag-threshold test, and \<open>hit\<close> is what the hit-test loop over the visible cells
  found (its geometry is floating point and is taken as an input).
\<close>

definition handleClick :: "bool \<Rightarrow> bool \<Rightarrow> (int \<times> int) option \<Rightarrow> mapState \<Rightarrow> mapState" where
  "handleClick dragging beyond hit s =
     (if dragging then s
      else if currentTurn s = ''ai'' then s
      else if beyond then s
      else (case hit of None \<Rightarrow> s | Some (r, c) \<Rightarrow> handleCellInteraction r c s))"

text \<open>
  The click listener of the End Turn button (\<open>createEndTurnButton\<close>): it calls
  \<open>endTurn()\<close>, then renders and recolours the button. It makes no test of the turn.
\<close>

definition endTurnButtonClick :: "mapState \<Rightarrow> mapState" where
  "endTurnButtonClick s = endTurn s"

subsection \<open>Sequences of operations\<close>

text \<open>
  The exported mutation operations of src/mapState.js as values, and a run of a sequence of
  them from a given state. A call of \<open>placeUnit\<close> that throws has written nothing, and a
  scheduled \<open>runAITurn\<close> callback can fire only while one is pending.
\<close>

datatype operation =
    InitializeCellStates "int list list"
  | AddUnit "uref option"
  | RemoveUnit "uref option"
  | PlaceUnit "uref option" int int
  | MoveUnit "uref option" int int
  | SelectUnit "uref option"
  | EndTurn
  | ToggleCellState int int
  | ClearHighlightedCells
  | RunAITurn

fun applyOp :: "operation \<Rightarrow> mapState \<Rightarrow> mapState" where
  "applyOp (InitializeCellStates gridConfig) s = initializeCellStates gridConfig s"
| "applyOp (AddUnit u) s = snd (addUnit u s)"
| "applyOp (RemoveUnit u) s = snd (removeUnit u s)"
| "applyOp (PlaceUnit u r c) s = (case placeUnit u r c s of Inr (ok, s') \<Rightarrow> s' | Inl e \<Rightarrow> s)"
| "applyOp (MoveUnit u r c) s = snd (moveUnit u r c s)"
| "applyOp (SelectUnit u) s = selectUnit u s"
| "applyOp EndTurn s = endTurn s"
| "applyOp (ToggleCellState r c) s = snd (toggleCellState r c s)"
| "applyOp ClearHighlightedCells s = clearHighlightedCells s"
| "applyOp RunAITurn s = (if aiTimers s > 0 then runAITurn s else s)"

definition run :: "operation list \<Rightarrow> mapState \<Rightarrow> mapState" where
  "run ops s = fold applyOp ops s"

subsection \<open>Example states\<close>

text \<open>
  A store whose units are fresh soldiers (\<open>createUnit\<close> gives a soldier health 10,
  attack 3 and movement 2); unit 1 belongs to the AI, every other unit to the player.
  \<open>demoState\<close> is the module state after \<open>initializeCellStates()\<close> on the default grid.
\<close>

definition demoHeap :: "uref \<Rightarrow> Unit" where
  "demoHeap i = newUnit ''soldier'' (if i = 1 then ''ai'' else ''player'') 10 3 2"

definition demoState :: mapState where
  "demoState = initializeCellStates defaultGridConfig (initialMapState demoHeap)"

definition stateOf :: "error + (bool \<times> mapState) \<Rightarrow> mapState" where
  "stateOf res = (case res of Inr (ok, s) \<Rightarrow> s | Inl e \<Rightarrow> demoState)"

text \<open>Unit 0 placed at (5,0), as the game setup of src/src/hexagon.js does for its first soldier.\<close>

definition placedState :: mapState where
  "placedState = stateOf (placeUnit (Some 0) 5 0 demoState)"

text \<open>
  Both units in the roster and spent: no movement left, attack used. Unit 1 is a knight of
  the AI (\<open>createUnit\<close> gives a knight health 12, attack 5 and movement 3). It is the
  player's turn.
\<close>

definition turnState :: mapState where
  "turnState = demoState\<lparr> units := [0, 1],
     heap := (heap demoState)(0 := (heap demoState 0)\<lparr> movementRemaining := 0, hasAttacked := True \<rparr>,
                              1 := (newUnit ''knight'' ''ai'' 12 5 3)\<lparr> movementRemaining := 0, hasAttacked := True \<rparr>) \<rparr>"

text \<open>A unit built with attack strength 0, which the constructor accepts.\<close>

definition unarmedUnit :: Unit where
  "unarmedUnit = newUnit ''soldier'' ''neutral'' 5 0 2"

text \<open>The turn was ended once after the placement: it is the AI's turn.\<close>

definition aiState :: mapState where
  "aiState = endTurn placedState"

text \<open>The cell (0,0) of the fresh grid toggled once: it is active.\<close>

definition toggledState :: mapState where
  "toggledState = snd (toggleCellState 0 0 demoState)"

text \<open>
  An admissibility predicate that walls off the corner (0,0) of the default grid: its two
  neighbours inside the grid, (0,1) and (1,0), are refused.
\<close>

definition wall :: "Cell \<Rightarrow> bool" where
  "wall cell \<longleftrightarrow> \<not> (rowIndex cell = 0 \<and> cellIndex cell = 1) \<and> \<not> (rowIndex cell = 1 \<and> cellIndex cell = 0)"

text \<open>A short game on the default grid: both sides place a unit, move it, and the AI unit is removed.\<close>

definition demoGame :: "operation list" where
  "demoGame = [PlaceUnit (Some 0) 5 0, PlaceUnit (Some 1) 0 0, SelectUnit (Some 0),
               MoveUnit (Some 0) 4 0, EndTurn, MoveUnit (Some 1) 1 0, RunAITurn,
               RemoveUnit (Some 1)]"

section \<open>Notions used in the proofs\<close>

text \<open>
  Two states that differ at most in the \<open>isHighlighted\<close> flags of their cells: what
  \<open>clearHighlightedCells\<close> and \<open>highlightMovementRange\<close> may change.
\<close>

definition sameButHighlight :: "mapState \<Rightarrow> mapState \<Rightarrow> bool" where
  "sameButHighlight s s' \<longleftrightarrow>
     heap s' = heap s \<and> units s' = units s \<and> currentTurn s' = currentTurn s
     \<and> aiTimers s' = aiTimers s \<and> activeHexagon s' = activeHexagon s
     \<and> selectedUnit s' = selectedUnit s
     \<and> (\<forall>r c. inBounds (cells s') r c = inBounds (cells s) r c)
     \<and> (\<forall>r c. inBounds (cells s) r c
           \<longrightarrow> (cellAt (cells s') r c)\<lparr> isHighlighted := False \<rparr>
               = (cellAt (cells s) r c)\<lparr> isHighlighted := False \<rparr>)"

text \<open>
  The state in the middle of a successful \<open>moveUnit\<close>: \<open>unit.move\<close> has run and both cell
  references are written; the highlights are not yet recomputed.
\<close>

definition moveCells :: "uref \<Rightarrow> int \<Rightarrow> int \<Rightarrow> mapState \<Rightarrow> mapState" where
  "moveCells i r c s =
     (let pos = position (heap s i);
          s1 = s\<lparr> heap := (heap s)(i := snd (move r c 1 (heap s i))) \<rparr>;
          s2 = (case getCell s (row pos) (col pos) of
                  Some cell \<Rightarrow> updCell (row pos) (col pos) (\<lambda>cell. cell\<lparr> unit := None \<rparr>) s1
                | None \<Rightarrow> s1)
      in updCell r c (\<lambda>cell. cell\<lparr> unit := Some i \<rparr>) s2)"

text \<open>The tests that \<open>moveUnit\<close> and \<open>Unit.move\<close> make before anything is written.\<close>

definition canMove :: "mapState \<Rightarrow> uref option \<Rightarrow> int \<Rightarrow> int \<Rightarrow> bool" where
  "canMove s u r c \<longleftrightarrow>
     (case u of None \<Rightarrow> False
      | Some i \<Rightarrow> inBounds (cells s) r c \<and> isVisible (cellAt (cells s) r c)
          \<and> unit (cellAt (cells s) r c) = None \<and> 1 \<le> movementRemaining (heap s i))"

text \<open>
  What the range query tests on a dequeued coordinate: the cell exists, is visible and
  passes the predicate. An admissible path leads from the origin to a cell through
  neighbouring cells, all of them admissible; its length is the number of steps.
\<close>

definition admissible :: "mapState \<Rightarrow> (Cell \<Rightarrow> bool) \<Rightarrow> int \<times> int \<Rightarrow> bool" where
  "admissible s p x =
     (case getCell s (fst x) (snd x) of
        None \<Rightarrow> False
      | Some cell \<Rightarrow> isVisible cell \<and> p cell)"

inductive admissiblePath :: "mapState \<Rightarrow> (Cell \<Rightarrow> bool) \<Rightarrow> int \<times> int \<Rightarrow> nat \<Rightarrow> int \<times> int \<Rightarrow> bool"
  for s :: mapState and p :: "Cell \<Rightarrow> bool" and origin :: "int \<times> int" where
  start: "admissible s p origin \<Longrightarrow> admissiblePath s p origin 0 origin"
| step: "admissiblePath s p origin n x \<Longrightarrow> y \<in> set (neighbors (fst x) (snd x))
         \<Longrightarrow> admissible s p y \<Longrightarrow> admissiblePath s p origin (Suc n) y"

text \<open>
  The loop invariant of \<open>getCellsInRange\<close>: a queue entry is within the range and, if its
  cell is admissible, is the end of an admissible path of its distance; a result entry is the
  end of an admissible path within the range.
\<close>

definition pending :: "mapState \<Rightarrow> (Cell \<Rightarrow> bool) \<Rightarrow> int \<times> int \<Rightarrow> int \<Rightarrow> int \<times> int \<times> int \<Rightarrow> bool" where
  "pending s p origin rng e =
     (case e of (r, c, d) \<Rightarrow>
        0 \<le> d \<and> d \<le> rng \<and> (admissible s p (r, c) \<longrightarrow> admissiblePath s p origin (nat d) (r, c)))"

definition reached :: "mapState \<Rightarrow> (Cell \<Rightarrow> bool) \<Rightarrow> int \<times> int \<Rightarrow> int \<Rightarrow> int \<times> int \<Rightarrow> bool" where
  "reached s p origin rng x = (\<exists>n. int n \<le> rng \<and> admissiblePath s p origin n x)"

text \<open>
  The occupancy invariant of the spec: a cell that holds a unit holds one whose position is
  the cell's \<open>(rowIndex, cellIndex)\<close>, and no other cell holds that unit.
\<close>

definition occupancy :: "mapState \<Rightarrow> bool" where
  "occupancy s \<longleftrightarrow>
     (\<forall>r c u. inBounds (cells s) r c \<and> unit (cellAt (cells s) r c) = Some u \<longrightarrow>
        row (position (heap s u)) = rowIndex (cellAt (cells s) r c)
        \<and> col (position (heap s u)) = cellIndex (cellAt (cells s) r c)
        \<and> (\<forall>r' c'. inBounds (cells s) r' c' \<and> unit (cellAt (cells s) r' c') = Some u
              \<longrightarrow> r' = r \<and> c' = c))"

text \<open>
  The inductive form of the invariant: every cell carries its own matrix indices, and a
  cell that holds a unit is visible and is where that unit's position points.
\<close>

definition wellPlaced :: "mapState \<Rightarrow> bool" where
  "wellPlaced s \<longleftrightarrow>
     (\<forall>r c. inBounds (cells s) r c \<longrightarrow>
        rowIndex (cellAt (cells s) r c) = r \<and> cellIndex (cellAt (cells s) r c) = c
        \<and> (\<forall>u. unit (cellAt (cells s) r c) = Some u \<longrightarrow>
              isVisible (cellAt (cells s) r c) \<and> position (heap s u) = \<lparr> row = r, col = c \<rparr>))"

text \<open>
  How the cells of \<open>s'\<close> relate to those of \<open>s\<close> after unit \<open>i\<close> was put on
  \<open>(r, c)\<close>: only unit references changed, the target holds \<open>i\<close>, and every other cell
  was either emptied or kept a reference to another unit.
\<close>

definition relocated :: "uref \<Rightarrow> int \<Rightarrow> int \<Rightarrow> mapState \<Rightarrow> mapState \<Rightarrow> bool" where
  "relocated i r c s s' \<longleftrightarrow>
     (\<forall>r' c'. inBounds (cells s') r' c' = inBounds (cells s) r' c')
     \<and> unit (cellAt (cells s') r c) = Some i
     \<and> (\<forall>r' c'. inBounds (cells s) r' c' \<longrightarrow>
           (cellAt (cells s') r' c')\<lparr> unit := None \<rparr> = (cellAt (cells s) r' c')\<lparr> unit := None \<rparr>
           \<and> ((r', c') \<noteq> (r, c) \<longrightarrow>
                 unit (cellAt (cells s') r' c') = None
                 \<or> unit (cellAt (cells s') r' c') = unit (cellAt (cells s) r' c')
                    \<and> unit (cellAt (cells s) r' c') \<noteq> Some i))"

text \<open>The state that the success branch of \<open>placeUnit\<close> builds.\<close>

definition placeCells :: "uref \<Rightarrow> int \<Rightarrow> int \<Rightarrow> mapState \<Rightarrow> mapState" where
  "placeCells i r c s =
     (let pos = position (heap s i);
          s1 = (if row pos \<ge> 0 \<and> col pos \<ge> 0
                then (case getCell s (row pos) (col pos) of
                        Some oldCell \<Rightarrow>
                          updCell (row pos) (col pos) (\<lambda>cell. cell\<lparr> unit := None \<rparr>) s
                      | None \<Rightarrow> s)
                else s);
          s2 = (if i \<notin> set (units s1) then s1\<lparr> units := units s1 @ [i] \<rparr> else s1);
          s3 = s2\<lparr> heap := (heap s2)(i := (heap s2 i)\<lparr> position := \<lparr> row = r, col = c \<rparr> \<rparr>) \<rparr>
      in updCell r c (\<lambda>cell. cell\<lparr> unit := Some i \<rparr>) s3)"

section \<open>Basic facts about the operations\<close>

lemma clearHighlightedCells_fields [simp]:
  "heap (clearHighlightedCells s) = heap s"
  "units (clearHighlightedCells s) = units s"
  "currentTurn (clearHighlightedCells s) = currentTurn s"
  "selectedUnit (clearHighlightedCells s) = selectedUnit s"
  "aiTimers (clearHighlightedCells s) = aiTimers s"
  "activeHexagon (clearHighlightedCells s) = activeHexagon s"
  by (simp_all add: clearHighlightedCells_def)

lemma resetOwned_fields [simp]:
  "units (resetOwned i s) = units s"
  "currentTurn (resetOwned i s) = currentTurn s"
  "selectedUnit (resetOwned i s) = selectedUnit s"
  "aiTimers (resetOwned i s) = aiTimers s"
  "cells (resetOwned i s) = cells s"
  "activeHexagon (resetOwned i s) = activeHexagon s"
  by (simp_all add: resetOwned_def)

lemma fold_resetOwned_fields [simp]:
  "units (fold resetOwned us s) = units s"
  "currentTurn (fold resetOwned us s) = currentTurn s"
  "selectedUnit (fold resetOwned us s) = selectedUnit s"
  "aiTimers (fold resetOwned us s) = aiTimers s"
  "cells (fold resetOwned us s) = cells s"
  "activeHexagon (fold resetOwned us s) = activeHexagon s"
  by (induction us arbitrary: s; simp)+

lemma fold_resetOwned_heap:
  "heap (fold resetOwned us s) i =
     (if i \<in> set us \<and> owner (heap s i) = currentTurn s then resetTurn (heap s i) else heap s i)"
proof (induction us arbitrary: s)
  case Nil
  show ?case by simp
next
  case (Cons j us)
  have step: "heap (resetOwned j s) i =
      (if i = j \<and> owner (heap s i) = currentTurn s then resetTurn (heap s i) else heap s i)"
    by (auto simp add: resetOwned_def)
  have idem: "\<And>v. resetTurn (resetTurn v) = resetTurn v"
    by (simp add: resetTurn_def)
  have own: "\<And>v. owner (resetTurn v) = owner v"
    by (simp add: resetTurn_def)
  show ?case
    by (auto simp add: Cons.IH step idem own)
qed

lemma endTurn_heap:
  "heap (endTurn s) i =
     (if i \<in> set (units s) \<and> owner (heap s i) = (if currentTurn s = ''player'' then ''ai'' else ''player'')
      then resetTurn (heap s i) else heap s i)"
  by (simp add: endTurn_def Let_def fold_resetOwned_heap)

lemma endTurn_currentTurn:
  "currentTurn (endTurn s) = (if currentTurn s = ''player'' then ''ai'' else ''player'')"
  by (simp add: endTurn_def Let_def)

lemma updCell_fields [simp]:
  "heap (updCell r c f s) = heap s"
  "units (updCell r c f s) = units s"
  "currentTurn (updCell r c f s) = currentTurn s"
  "selectedUnit (updCell r c f s) = selectedUnit s"
  "aiTimers (updCell r c f s) = aiTimers s"
  "activeHexagon (updCell r c f s) = activeHexagon s"
  by (simp_all add: updCell_def)

lemma inBounds_updCell [simp]:
  "inBounds (cells (updCell r c f s)) r' c' = inBounds (cells s) r' c'"
  by (auto simp add: updCell_def inBounds_def nth_list_update split: if_splits)

lemma cellAt_updCell:
  "inBounds (cells s) r' c' \<Longrightarrow>
   cellAt (cells (updCell r c f s)) r' c' =
     (if r' = r \<and> c' = c then f (cellAt (cells s) r c) else cellAt (cells s) r' c')"
  by (auto simp add: updCell_def inBounds_def cellAt_def nth_list_update)

lemma inBounds_clearHighlightedCells [simp]:
  "inBounds (cells (clearHighlightedCells s)) r c = inBounds (cells s) r c"
  by (auto simp add: clearHighlightedCells_def inBounds_def)

lemma cellAt_clearHighlightedCells:
  "inBounds (cells s) r c \<Longrightarrow>
   cellAt (cells (clearHighlightedCells s)) r c = (cellAt (cells s) r c)\<lparr> isHighlighted := False \<rparr>"
  by (simp add: clearHighlightedCells_def inBounds_def cellAt_def nat_less_iff)

lemma sameButHighlight_refl: "sameButHighlight s s"
  by (simp add: sameButHighlight_def)

lemma sameButHighlight_trans:
  "sameButHighlight s t \<Longrightarrow> sameButHighlight t u \<Longrightarrow> sameButHighlight s u"
  by (simp add: sameButHighlight_def)

lemma sameButHighlight_clear: "sameButHighlight s (clearHighlightedCells s)"
  by (simp add: sameButHighlight_def cellAt_clearHighlightedCells)

lemma sameButHighlight_updCell:
  "sameButHighlight s (updCell r c (\<lambda>cell. cell\<lparr> isHighlighted := b \<rparr>) s)"
  by (simp add: sameButHighlight_def cellAt_updCell)

lemma sameButHighlight_cell:
  assumes "sameButHighlight s s'" and "inBounds (cells s) r c"
  shows "unit (cellAt (cells s') r c) = unit (cellAt (cells s) r c)"
    and "isVisible (cellAt (cells s') r c) = isVisible (cellAt (cells s) r c)"
    and "isActive (cellAt (cells s') r c) = isActive (cellAt (cells s) r c)"
    and "rowIndex (cellAt (cells s') r c) = rowIndex (cellAt (cells s) r c)"
    and "cellIndex (cellAt (cells s') r c) = cellIndex (cellAt (cells s) r c)"
proof -
  have eq: "(cellAt (cells s') r c)\<lparr> isHighlighted := False \<rparr>
              = (cellAt (cells s) r c)\<lparr> isHighlighted := False \<rparr>"
    using assms by (simp add: sameButHighlight_def)
  have "unit ((cellAt (cells s') r c)\<lparr> isHighlighted := False \<rparr>)
          = unit ((cellAt (cells s) r c)\<lparr> isHighlighted := False \<rparr>)"
    by (simp only: eq)
  then show "unit (cellAt (cells s') r c) = unit (cellAt (cells s) r c)" by simp
  have "isVisible ((cellAt (cells s') r c)\<lparr> isHighlighted := False \<rparr>)
          = isVisible ((cellAt (cells s) r c)\<lparr> isHighlighted := False \<rparr>)"
    by (simp only: eq)
  then show "isVisible (cellAt (cells s') r c) = isVisible (cellAt (cells s) r c)" by simp
  have "isActive ((cellAt (cells s') r c)\<lparr> isHighlighted := False \<rparr>)
          = isActive ((cellAt (cells s) r c)\<lparr> isHighlighted := False \<rparr>)"
    by (simp only: eq)
  then show "isActive (cellAt (cells s') r c) = isActive (cellAt (cells s) r c)" by simp
  have "rowIndex ((cellAt (cells s') r c)\<lparr> isHighlighted := False \<rparr>)
          = rowIndex ((cellAt (cells s) r c)\<lparr> isHighlighted := False \<rparr>)"
    by (simp only: eq)
  then show "rowIndex (cellAt (cells s') r c) = rowIndex (cellAt (cells s) r c)" by simp
  have "cellIndex ((cellAt (cells s') r c)\<lparr> isHighlighted := False \<rparr>)
          = cellIndex ((cellAt (cells s) r c)\<lparr> isHighlighted := False \<rparr>)"
    by (simp only: eq)
  then show "cellIndex (cellAt (cells s') r c) = cellIndex (cellAt (cells s) r c)" by simp
qed

lemma sameButHighlight_fold:
  "sameButHighlight s (fold (\<lambda>(r, c). updCell r c (\<lambda>cell. cell\<lparr> isHighlighted := b \<rparr>)) xs s)"
proof (induction xs arbitrary: s)
  case Nil
  show ?case by (simp add: sameButHighlight_refl)
next
  case (Cons x xs)
  obtain r c where x: "x = (r, c)" by (cases x)
  show ?case
    using sameButHighlight_trans [OF sameButHighlight_updCell Cons.IH]
    by (simp add: x)
qed

lemma sameButHighlight_highlightMovementRange:
  "sameButHighlight s (highlightMovementRange u s)"
  by (simp add: highlightMovementRange_def Let_def sameButHighlight_refl sameButHighlight_fold
      split: option.split)

lemma getCell_Some_iff:
  "getCell s r c = Some cell \<longleftrightarrow>
     inBounds (cells s) r c \<and> isVisible (cellAt (cells s) r c) \<and> cell = cellAt (cells s) r c"
  by (auto simp add: getCell_def cellExists_def)

lemma getCell_None_iff:
  "getCell s r c = None \<longleftrightarrow> \<not> (inBounds (cells s) r c \<and> isVisible (cellAt (cells s) r c))"
  by (auto simp add: getCell_def cellExists_def)

lemma moveUnit_failure: "\<not> canMove s u r c \<Longrightarrow> moveUnit u r c s = (False, s)"
  by (auto simp add: canMove_def moveUnit_def move_def Let_def getCell_Some_iff
      split: option.splits)

lemma moveUnit_success:
  assumes "canMove s (Some i) r c"
  shows "fst (moveUnit (Some i) r c s)"
    and "sameButHighlight (moveCells i r c s) (snd (moveUnit (Some i) r c s))"
proof -
  have g: "getCell s r c = Some (cellAt (cells s) r c)"
    and v: "isVisible (cellAt (cells s) r c)" and e: "unit (cellAt (cells s) r c) = None"
    and m: "1 \<le> movementRemaining (heap s i)"
    using assms by (simp_all add: canMove_def getCell_Some_iff)
  show "fst (moveUnit (Some i) r c s)"
    by (simp add: moveUnit_def g v e m move_def Let_def)
  have hl: "sameButHighlight t (highlightMovementRange (Some i) (clearHighlightedCells t))" for t
    by (rule sameButHighlight_trans [OF sameButHighlight_clear sameButHighlight_highlightMovementRange])
  show "sameButHighlight (moveCells i r c s) (snd (moveUnit (Some i) r c s))"
    by (simp add: moveUnit_def g v e m move_def Let_def moveCells_def hl sameButHighlight_clear)
qed

lemma moveUnit_fst_iff: "fst (moveUnit u r c s) \<longleftrightarrow> canMove s u r c"
proof (cases "canMove s u r c")
  case True
  then obtain i where "u = Some i" by (auto simp add: canMove_def split: option.splits)
  with True show ?thesis by (simp add: moveUnit_success)
next
  case False
  then show ?thesis by (simp add: moveUnit_failure)
qed

lemma moveCells_heap:
  "1 \<le> movementRemaining (heap s i) \<Longrightarrow>
   heap (moveCells i r c s) =
     (heap s)(i := (heap s i)\<lparr> position := \<lparr> row = r, col = c \<rparr>,
                                 movementRemaining := movementRemaining (heap s i) - 1 \<rparr>)"
  by (simp add: moveCells_def Let_def move_def split: option.split)

lemma inBounds_moveCells [simp]:
  "inBounds (cells (moveCells i r c s)) r' c' = inBounds (cells s) r' c'"
  by (simp add: moveCells_def Let_def split: option.split)

lemma cellAt_moveCells_target:
  "inBounds (cells s) r c \<Longrightarrow> unit (cellAt (cells (moveCells i r c s)) r c) = Some i"
  by (simp add: moveCells_def Let_def cellAt_updCell split: option.split)

lemma cellAt_moveCells:
  assumes "inBounds (cells s) r' c'"
  shows "cellAt (cells (moveCells i r c s)) r' c' =
     (if r' = r \<and> c' = c then
        (if r = row (position (heap s i)) \<and> c = col (position (heap s i))
            \<and> isVisible (cellAt (cells s) r c)
         then (cellAt (cells s) r c)\<lparr> unit := None, unit := Some i \<rparr>
         else (cellAt (cells s) r c)\<lparr> unit := Some i \<rparr>)
      else if r' = row (position (heap s i)) \<and> c' = col (position (heap s i))
              \<and> isVisible (cellAt (cells s) r' c')
           then (cellAt (cells s) r' c')\<lparr> unit := None \<rparr>
           else cellAt (cells s) r' c')"
  using assms
  by (auto simp add: moveCells_def Let_def cellAt_updCell getCell_Some_iff getCell_None_iff
      split: option.split)

lemma moveUnit_post:
  assumes cm: "canMove s (Some i) r c"
  shows "heap (snd (moveUnit (Some i) r c s)) i =
           (heap s i)\<lparr> position := \<lparr> row = r, col = c \<rparr>,
                         movementRemaining := movementRemaining (heap s i) - 1 \<rparr>"
    and "unit (cellAt (cells (snd (moveUnit (Some i) r c s))) r c) = Some i"
    and "inBounds (cells s) (row (position (heap s i))) (col (position (heap s i)))
         \<Longrightarrow> isVisible (cellAt (cells s) (row (position (heap s i))) (col (position (heap s i))))
         \<Longrightarrow> (row (position (heap s i)), col (position (heap s i))) \<noteq> (r, c)
         \<Longrightarrow> unit (cellAt (cells (snd (moveUnit (Some i) r c s)))
                     (row (position (heap s i))) (col (position (heap s i)))) = None"
proof -
  have m: "1 \<le> movementRemaining (heap s i)" and ib: "inBounds (cells s) r c"
    using cm by (simp_all add: canMove_def)
  note sb = moveUnit_success(2) [OF cm]
  have h: "heap (snd (moveUnit (Some i) r c s)) = heap (moveCells i r c s)"
    using sb by (simp add: sameButHighlight_def)
  show "heap (snd (moveUnit (Some i) r c s)) i =
           (heap s i)\<lparr> position := \<lparr> row = r, col = c \<rparr>,
                         movementRemaining := movementRemaining (heap s i) - 1 \<rparr>"
    by (simp add: h moveCells_heap [OF m])
  show "unit (cellAt (cells (snd (moveUnit (Some i) r c s))) r c) = Some i"
    using sameButHighlight_cell(1) [OF sb, of r c] ib
    by (simp add: cellAt_moveCells_target)
  let ?r = "row (position (heap s i))" and ?c = "col (position (heap s i))"
  assume a: "inBounds (cells s) ?r ?c" and b: "isVisible (cellAt (cells s) ?r ?c)"
    and d: "(?r, ?c) \<noteq> (r, c)"
  have "cellAt (cells (moveCells i r c s)) ?r ?c = (cellAt (cells s) ?r ?c)\<lparr> unit := None \<rparr>"
    using b d by (subst cellAt_moveCells [OF a]) auto
  then show "unit (cellAt (cells (snd (moveUnit (Some i) r c s))) ?r ?c) = None"
    using sameButHighlight_cell(1) [OF sb, of ?r ?c] a by simp
qed

lemma moveUnit_Some_iff:
  "fst (moveUnit u r c s) \<longleftrightarrow>
      (\<exists>i. u = Some i \<and> inBounds (cells s) r c \<and> isVisible (cellAt (cells s) r c)
           \<and> unit (cellAt (cells s) r c) = None \<and> 1 \<le> movementRemaining (heap s i))"
  by (cases u) (simp_all add: moveUnit_fst_iff canMove_def)

lemma bfs_skip:
  "\<not> admissible s p (r, c) \<Longrightarrow>
   bfs s rng p ((r, c, d) # queue) visited result = bfs s rng p queue visited result"
  by (auto simp add: bfs.simps admissible_def split: option.splits)

lemma bfs_take:
  assumes "admissible s p (r, c)" and "(r, c) \<notin> visited"
  shows "bfs s rng p ((r, c, d) # queue) visited result =
     (if d \<ge> rng then bfs s rng p queue (insert (r, c) visited) (result @ [(r, c)])
      else bfs s rng p (queue @ map (\<lambda>(nr, nc). (nr, nc, d + 1)) (neighbors r c))
             (insert (r, c) visited) (result @ [(r, c)]))"
  using assms by (auto simp add: bfs.simps admissible_def split: option.splits)

lemma bfs_seen:
  assumes "(r, c) \<in> visited"
  shows "bfs s rng p ((r, c, d) # queue) visited result = bfs s rng p queue visited result"
  using assms by (simp add: bfs.simps split: option.splits)

lemma pending_neighbors:
  assumes "pending s p origin rng (r, c, d)" and "admissible s p (r, c)" and "d < rng"
    and "e \<in> set (map (\<lambda>(nr, nc). (nr, nc, d + 1)) (neighbors r c))"
  shows "pending s p origin rng e"
proof -
  obtain nr nc where e: "e = (nr, nc, d + 1)" and nb: "(nr, nc) \<in> set (neighbors r c)"
    using assms(4) by auto
  have path: "admissiblePath s p origin (nat d) (r, c)" and d0: "0 \<le> d"
    using assms(1,2) by (simp_all add: pending_def)
  have "admissiblePath s p origin (Suc (nat d)) (nr, nc)" if "admissible s p (nr, nc)"
    using admissiblePath.step [OF path _ that] nb by simp
  moreover have "nat (d + 1) = Suc (nat d)"
    using d0 by simp
  ultimately show ?thesis
    using d0 assms(3) by (simp add: pending_def e)
qed

lemma pending_reached:
  "pending s p origin rng (r, c, d) \<Longrightarrow> admissible s p (r, c) \<Longrightarrow> reached s p origin rng (r, c)"
  unfolding pending_def reached_def
  by (auto intro: exI [of _ "nat d"])

lemma bfs_sound:
  assumes "\<forall>e \<in> set queue. pending s p origin rng e"
    and "\<forall>x \<in> set result. reached s p origin rng x"
  shows "\<forall>x \<in> set (bfs s rng p queue visited result). reached s p origin rng x"
  using assms
proof (induction s rng p queue visited result rule: bfs.induct)
  case (1 s rng p visited result)
  then show ?case by (simp add: bfs.simps)
next
  case (2 s rng p r c dist queue visited result)
  have q: "\<forall>e \<in> set queue. pending s p origin rng e"
    and hd: "pending s p origin rng (r, c, dist)"
    using "2.prems"(1) by simp_all
  show ?case
  proof (cases "admissible s p (r, c)")
    case False
    then have none: "getCell s r c = None \<or> (\<exists>cell. getCell s r c = Some cell \<and> (\<not> isVisible cell \<or> \<not> p cell))"
      by (auto simp add: admissible_def split: option.splits)
    show ?thesis
      unfolding bfs_skip [OF False]
      using none "2.IH"(1,2) q "2.prems"(2) by blast
  next
    case True
    then obtain cell where cell: "getCell s r c = Some cell" "\<not> (\<not> isVisible cell \<or> \<not> p cell)"
      by (auto simp add: admissible_def split: option.splits)
    show ?thesis
    proof (cases "(r, c) \<in> visited")
      case seen: True
      show ?thesis
        unfolding bfs_seen [OF seen]
        using "2.IH"(3) [OF cell seen q "2.prems"(2)] .
    next
      case new: False
      have res: "\<forall>x \<in> set (result @ [(r, c)]). reached s p origin rng x"
        using "2.prems"(2) pending_reached [OF hd True] by simp
      show ?thesis
      proof (cases "dist \<ge> rng")
        case far: True
        show ?thesis
          unfolding bfs_take [OF True new]
          using "2.IH"(4) [OF cell new far q res] far by simp
      next
        case near: False
        have q': "\<forall>e \<in> set (queue @ map (\<lambda>(nr, nc). (nr, nc, dist + 1)) (neighbors r c)).
                    pending s p origin rng e"
        proof
          fix e
          assume "e \<in> set (queue @ map (\<lambda>(nr, nc). (nr, nc, dist + 1)) (neighbors r c))"
          then have "e \<in> set queue
              \<or> e \<in> set (map (\<lambda>(nr, nc). (nr, nc, dist + 1)) (neighbors r c))"
            by (simp only: set_append Un_iff)
          then show "pending s p origin rng e"
          proof (elim disjE)
            assume "e \<in> set queue"
            then show ?thesis using q by simp
          next
            assume 2: "e \<in> set (map (\<lambda>(nr, nc). (nr, nc, dist + 1)) (neighbors r c))"
            show ?thesis
              by (rule pending_neighbors [OF hd True _ 2]) (use near in simp)
          qed
        qed
        show ?thesis
          unfolding bfs_take [OF True new]
          using "2.IH"(5) [OF cell new near q' res] near by simp
      qed
    qed
  qed
qed

lemma bfs_distinct:
  assumes "distinct result" and "set result \<subseteq> visited"
  shows "distinct (bfs s rng p queue visited result)"
  using assms
proof (induction s rng p queue visited result rule: bfs.induct)
  case (1 s rng p visited result)
  then show ?case by (simp add: bfs.simps)
next
  case (2 s rng p r c dist queue visited result)
  show ?case
  proof (cases "admissible s p (r, c)")
    case False
    then have none: "getCell s r c = None \<or> (\<exists>cell. getCell s r c = Some cell \<and> (\<not> isVisible cell \<or> \<not> p cell))"
      by (auto simp add: admissible_def split: option.splits)
    show ?thesis
      unfolding bfs_skip [OF False]
      using none "2.IH"(1,2) "2.prems" by blast
  next
    case True
    then obtain cell where cell: "getCell s r c = Some cell" "\<not> (\<not> isVisible cell \<or> \<not> p cell)"
      by (auto simp add: admissible_def split: option.splits)
    show ?thesis
    proof (cases "(r, c) \<in> visited")
      case seen: True
      show ?thesis
        unfolding bfs_seen [OF seen]
        using "2.IH"(3) [OF cell seen "2.prems"] .
    next
      case new: False
      have d: "distinct (result @ [(r, c)])" and sub: "set (result @ [(r, c)]) \<subseteq> insert (r, c) visited"
        using "2.prems" new by auto
      show ?thesis
      proof (cases "dist \<ge> rng")
        case far: True
        show ?thesis
          unfolding bfs_take [OF True new]
          using "2.IH"(4) [OF cell new far d sub] far by simp
      next
        case near: False
        show ?thesis
          unfolding bfs_take [OF True new]
          using "2.IH"(5) [OF cell new near d sub] near by simp
      qed
    qed
  qed
qed

section \<open>The occupancy invariant is preserved\<close>

lemma wellPlaced_occupancy: "wellPlaced s \<Longrightarrow> occupancy s"
  unfolding wellPlaced_def occupancy_def
  by (metis Position.select_convs(1,2))

lemma wellPlaced_transfer:
  assumes wp: "wellPlaced s"
    and ib: "\<And>r c. inBounds (cells s') r c = inBounds (cells s) r c"
    and cell: "\<And>r c. inBounds (cells s) r c \<Longrightarrow>
        rowIndex (cellAt (cells s') r c) = rowIndex (cellAt (cells s) r c)
        \<and> cellIndex (cellAt (cells s') r c) = cellIndex (cellAt (cells s) r c)
        \<and> isVisible (cellAt (cells s') r c) = isVisible (cellAt (cells s) r c)
        \<and> (unit (cellAt (cells s') r c) = unit (cellAt (cells s) r c)
            \<or> unit (cellAt (cells s') r c) = None)"
    and pos: "\<And>u. position (heap s' u) = position (heap s u)"
  shows "wellPlaced s'"
  unfolding wellPlaced_def
proof (intro allI impI)
  fix r c
  assume "inBounds (cells s') r c"
  then have b: "inBounds (cells s) r c" by (simp add: ib)
  note old = wp [unfolded wellPlaced_def, rule_format, OF b]
  note new = cell [OF b]
  show "rowIndex (cellAt (cells s') r c) = r \<and> cellIndex (cellAt (cells s') r c) = c
        \<and> (\<forall>u. unit (cellAt (cells s') r c) = Some u \<longrightarrow>
              isVisible (cellAt (cells s') r c) \<and> position (heap s' u) = \<lparr> row = r, col = c \<rparr>)"
    using old new by (auto simp add: pos)
qed

lemma wellPlaced_sameButHighlight:
  assumes "sameButHighlight s s'" and "wellPlaced s"
  shows "wellPlaced s'"
proof (rule wellPlaced_transfer [OF assms(2)])
  show "inBounds (cells s') r c = inBounds (cells s) r c" for r c
    using assms(1) by (simp add: sameButHighlight_def)
  show "position (heap s' u) = position (heap s u)" for u
    using assms(1) by (simp add: sameButHighlight_def)
  show "rowIndex (cellAt (cells s') r c) = rowIndex (cellAt (cells s) r c)
        \<and> cellIndex (cellAt (cells s') r c) = cellIndex (cellAt (cells s) r c)
        \<and> isVisible (cellAt (cells s') r c) = isVisible (cellAt (cells s) r c)
        \<and> (unit (cellAt (cells s') r c) = unit (cellAt (cells s) r c)
            \<or> unit (cellAt (cells s') r c) = None)"
    if "inBounds (cells s) r c" for r c
    using sameButHighlight_cell [OF assms(1) that] by simp
qed

lemma wellPlaced_fields [simp]:
  "wellPlaced (s\<lparr> units := us \<rparr>) = wellPlaced s"
  "wellPlaced (s\<lparr> selectedUnit := su \<rparr>) = wellPlaced s"
  "wellPlaced (s\<lparr> currentTurn := ct \<rparr>) = wellPlaced s"
  "wellPlaced (s\<lparr> aiTimers := n \<rparr>) = wellPlaced s"
  by (simp_all add: wellPlaced_def)

lemma wellPlaced_updCell:
  assumes "wellPlaced s"
    and "\<And>cell. rowIndex (f cell) = rowIndex cell \<and> cellIndex (f cell) = cellIndex cell
           \<and> isVisible (f cell) = isVisible cell \<and> (unit (f cell) = unit cell \<or> unit (f cell) = None)"
  shows "wellPlaced (updCell r c f s)"
proof (rule wellPlaced_transfer [OF assms(1)])
  show "inBounds (cells (updCell r c f s)) r' c' = inBounds (cells s) r' c'" for r' c'
    by simp
  show "position (heap (updCell r c f s) u) = position (heap s u)" for u
    by simp
  show "rowIndex (cellAt (cells (updCell r c f s)) r' c') = rowIndex (cellAt (cells s) r' c')
        \<and> cellIndex (cellAt (cells (updCell r c f s)) r' c') = cellIndex (cellAt (cells s) r' c')
        \<and> isVisible (cellAt (cells (updCell r c f s)) r' c') = isVisible (cellAt (cells s) r' c')
        \<and> (unit (cellAt (cells (updCell r c f s)) r' c') = unit (cellAt (cells s) r' c')
            \<or> unit (cellAt (cells (updCell r c f s)) r' c') = None)"
    if "inBounds (cells s) r' c'" for r' c'
    using assms(2) [of "cellAt (cells s) r c"] by (simp add: cellAt_updCell [OF that])
qed

lemma wellPlaced_clearHighlightedCells: "wellPlaced s \<Longrightarrow> wellPlaced (clearHighlightedCells s)"
  by (rule wellPlaced_sameButHighlight [OF sameButHighlight_clear])

lemma wellPlaced_selectUnit: "wellPlaced s \<Longrightarrow> wellPlaced (selectUnit u s)"
  unfolding selectUnit_def
  by (rule wellPlaced_sameButHighlight [OF sameButHighlight_highlightMovementRange])
     (simp add: wellPlaced_clearHighlightedCells)

lemma wellPlaced_toggleCellState: "wellPlaced s \<Longrightarrow> wellPlaced (snd (toggleCellState r c s))"
  by (simp add: toggleCellState_def wellPlaced_updCell)

lemma wellPlaced_addUnit: "wellPlaced s \<Longrightarrow> wellPlaced (snd (addUnit u s))"
  by (simp add: addUnit_def split: option.split)

lemma wellPlaced_removeUnit: "wellPlaced s \<Longrightarrow> wellPlaced (snd (removeUnit u s))"
  by (simp add: removeUnit_def Let_def wellPlaced_updCell split: option.split)

lemma wellPlaced_endTurn:
  assumes "wellPlaced s"
  shows "wellPlaced (endTurn s)"
proof (rule wellPlaced_transfer [OF wellPlaced_clearHighlightedCells [OF assms]])
  have c: "cells (endTurn s) = cells (clearHighlightedCells s)"
    by (simp add: endTurn_def Let_def clearHighlightedCells_def)
  show "inBounds (cells (endTurn s)) r c = inBounds (cells (clearHighlightedCells s)) r c" for r c
    by (simp add: c)
  show "position (heap (endTurn s) u) = position (heap (clearHighlightedCells s) u)" for u
    by (simp add: endTurn_heap resetTurn_def)
  show "rowIndex (cellAt (cells (endTurn s)) r c) = rowIndex (cellAt (cells (clearHighlightedCells s)) r c)
        \<and> cellIndex (cellAt (cells (endTurn s)) r c) = cellIndex (cellAt (cells (clearHighlightedCells s)) r c)
        \<and> isVisible (cellAt (cells (endTurn s)) r c) = isVisible (cellAt (cells (clearHighlightedCells s)) r c)
        \<and> (unit (cellAt (cells (endTurn s)) r c) = unit (cellAt (cells (clearHighlightedCells s)) r c)
            \<or> unit (cellAt (cells (endTurn s)) r c) = None)" for r c
    by (simp add: c)
qed

lemma wellPlaced_runAITurn: "wellPlaced s \<Longrightarrow> wellPlaced (runAITurn s)"
  by (simp add: runAITurn_def wellPlaced_endTurn)

lemma cells_initializeCellStates_nth:
  "i < length gridConfig \<Longrightarrow>
   cells (initializeCellStates gridConfig s) ! i =
     map (\<lambda>(ci, v). newCell i ci v) (enumerate 0 (gridConfig ! i))"
  by (simp add: initializeCellStates_def nth_enumerate_eq)

lemma inBounds_initializeCellStates:
  "inBounds (cells (initializeCellStates gridConfig s)) r c \<longleftrightarrow>
     0 \<le> r \<and> r < int (length gridConfig) \<and> 0 \<le> c \<and> c < int (length (gridConfig ! nat r))"
proof (cases "0 \<le> r \<and> r < int (length gridConfig)")
  case True
  then have "nat r < length gridConfig" by (simp add: nat_less_iff)
  then show ?thesis
    using True by (simp add: inBounds_def cells_initializeCellStates_nth)
       (simp add: initializeCellStates_def)
next
  case False
  then show ?thesis
    by (auto simp add: inBounds_def initializeCellStates_def)
qed

lemma cellAt_initializeCellStates:
  assumes "inBounds (cells (initializeCellStates gridConfig s)) r c"
  shows "cellAt (cells (initializeCellStates gridConfig s)) r c =
           newCell (nat r) (nat c) (gridConfig ! nat r ! nat c)"
proof -
  have b: "0 \<le> r" "r < int (length gridConfig)" "0 \<le> c" "c < int (length (gridConfig ! nat r))"
    using assms by (simp_all add: inBounds_initializeCellStates)
  then have i: "nat r < length gridConfig" and j: "nat c < length (gridConfig ! nat r)"
    by (simp_all add: nat_less_iff)
  show ?thesis
    by (simp add: cellAt_def cells_initializeCellStates_nth [OF i] nth_enumerate_eq j)
qed

lemma wellPlaced_initializeCellStates: "wellPlaced (initializeCellStates gridConfig s)"
  unfolding wellPlaced_def
proof (intro allI impI)
  fix r c
  assume b: "inBounds (cells (initializeCellStates gridConfig s)) r c"
  then have "0 \<le> r" "0 \<le> c" by (simp_all add: inBounds_initializeCellStates)
  then show "rowIndex (cellAt (cells (initializeCellStates gridConfig s)) r c) = r
     \<and> cellIndex (cellAt (cells (initializeCellStates gridConfig s)) r c) = c
     \<and> (\<forall>u. unit (cellAt (cells (initializeCellStates gridConfig s)) r c) = Some u \<longrightarrow>
           isVisible (cellAt (cells (initializeCellStates gridConfig s)) r c)
           \<and> position (heap (initializeCellStates gridConfig s) u) = \<lparr> row = r, col = c \<rparr>)"
    by (simp add: cellAt_initializeCellStates [OF b] newCell_def)
qed

lemma relocated_cell:
  assumes "relocated i r c s s'" and "inBounds (cells s) r' c'"
  shows "rowIndex (cellAt (cells s') r' c') = rowIndex (cellAt (cells s) r' c')"
    and "cellIndex (cellAt (cells s') r' c') = cellIndex (cellAt (cells s) r' c')"
    and "isVisible (cellAt (cells s') r' c') = isVisible (cellAt (cells s) r' c')"
proof -
  have eq: "(cellAt (cells s') r' c')\<lparr> unit := None \<rparr> = (cellAt (cells s) r' c')\<lparr> unit := None \<rparr>"
    using assms by (simp add: relocated_def)
  have "rowIndex ((cellAt (cells s') r' c')\<lparr> unit := None \<rparr>)
          = rowIndex ((cellAt (cells s) r' c')\<lparr> unit := None \<rparr>)"
    by (simp only: eq)
  then show "rowIndex (cellAt (cells s') r' c') = rowIndex (cellAt (cells s) r' c')" by simp
  have "cellIndex ((cellAt (cells s') r' c')\<lparr> unit := None \<rparr>)
          = cellIndex ((cellAt (cells s) r' c')\<lparr> unit := None \<rparr>)"
    by (simp only: eq)
  then show "cellIndex (cellAt (cells s') r' c') = cellIndex (cellAt (cells s) r' c')" by simp
  have "isVisible ((cellAt (cells s') r' c')\<lparr> unit := None \<rparr>)
          = isVisible ((cellAt (cells s) r' c')\<lparr> unit := None \<rparr>)"
    by (simp only: eq)
  then show "isVisible (cellAt (cells s') r' c') = isVisible (cellAt (cells s) r' c')" by simp
qed

lemma relocated_other:
  assumes "relocated i r c s s'" and "inBounds (cells s) r' c'" and "(r', c') \<noteq> (r, c)"
    and "unit (cellAt (cells s') r' c') = Some u"
  shows "unit (cellAt (cells s) r' c') = Some u" and "u \<noteq> i"
proof -
  have "unit (cellAt (cells s') r' c') = None
        \<or> unit (cellAt (cells s') r' c') = unit (cellAt (cells s) r' c')
           \<and> unit (cellAt (cells s) r' c') \<noteq> Some i"
    using assms(1,2,3) unfolding relocated_def by blast
  then have "unit (cellAt (cells s') r' c') = unit (cellAt (cells s) r' c')
           \<and> unit (cellAt (cells s) r' c') \<noteq> Some i"
    using assms(4) by simp
  then show "unit (cellAt (cells s) r' c') = Some u" and "u \<noteq> i"
    using assms(4) by auto
qed

lemma wellPlaced_relocated:
  assumes wp: "wellPlaced s" and rel: "relocated i r c s s'"
    and vis: "isVisible (cellAt (cells s) r c)"
    and hp: "heap s' = (heap s)(i := v)" and pv: "position v = \<lparr> row = r, col = c \<rparr>"
  shows "wellPlaced s'"
  unfolding wellPlaced_def
proof (intro allI impI conjI)
  fix r' c'
  assume "inBounds (cells s') r' c'"
  then have b: "inBounds (cells s) r' c'"
    using rel by (simp add: relocated_def)
  note old = wp [unfolded wellPlaced_def, rule_format, OF b]
  note fields = relocated_cell [OF rel b]
  show "rowIndex (cellAt (cells s') r' c') = r'"
    using old by (simp add: fields(1))
  show "cellIndex (cellAt (cells s') r' c') = c'"
    using old by (simp add: fields(2))
  fix u
  assume u: "unit (cellAt (cells s') r' c') = Some u"
  show "isVisible (cellAt (cells s') r' c')"
  proof (cases "(r', c') = (r, c)")
    case True
    then have "isVisible (cellAt (cells s) r' c')" using vis by simp
    then show ?thesis by (simp only: fields(3))
  next
    case False
    have "isVisible (cellAt (cells s) r' c')"
      using old relocated_other(1) [OF rel b False u] by simp
    then show ?thesis by (simp only: fields(3))
  qed
  show "position (heap s' u) = \<lparr> row = r', col = c' \<rparr>"
  proof (cases "(r', c') = (r, c)")
    case True
    have "unit (cellAt (cells s') r c) = Some i"
      using rel by (simp add: relocated_def)
    then have "u = i"
      using u True by simp
    then show ?thesis using True by (simp add: hp pv)
  next
    case False
    note o = relocated_other [OF rel b False u]
    have "position (heap s u) = \<lparr> row = r', col = c' \<rparr>"
      using old o(1) by simp
    then show ?thesis
      using o(2) by (simp add: hp)
  qed
qed

lemma relocatedI:
  assumes wp: "wellPlaced s" and b: "inBounds (cells s) r c"
    and ib: "\<And>r' c'. inBounds (cells s') r' c' = inBounds (cells s) r' c'"
    and at: "\<And>r' c'. inBounds (cells s) r' c' \<Longrightarrow>
      cellAt (cells s') r' c' =
       (if r' = r \<and> c' = c then
          (if r = row (position (heap s i)) \<and> c = col (position (heap s i))
              \<and> isVisible (cellAt (cells s) r c)
           then (cellAt (cells s) r c)\<lparr> unit := None, unit := Some i \<rparr>
           else (cellAt (cells s) r c)\<lparr> unit := Some i \<rparr>)
        else if r' = row (position (heap s i)) \<and> c' = col (position (heap s i))
                \<and> isVisible (cellAt (cells s) r' c')
             then (cellAt (cells s) r' c')\<lparr> unit := None \<rparr>
             else cellAt (cells s) r' c')"
  shows "relocated i r c s s'"
  unfolding relocated_def
proof (intro conjI allI impI)
  show "inBounds (cells s') r' c' = inBounds (cells s) r' c'" for r' c'
    by (rule ib)
  show "unit (cellAt (cells s') r c) = Some i"
    by (simp add: at [OF b])
next
  fix r' c'
  assume b': "inBounds (cells s) r' c'"
  note here = at [OF b']
  show "(cellAt (cells s') r' c')\<lparr> unit := None \<rparr> = (cellAt (cells s) r' c')\<lparr> unit := None \<rparr>"
    unfolding here by simp
  assume ne: "(r', c') \<noteq> (r, c)"
  note old = wp [unfolded wellPlaced_def, rule_format, OF b']
  show "unit (cellAt (cells s') r' c') = None
        \<or> unit (cellAt (cells s') r' c') = unit (cellAt (cells s) r' c')
           \<and> unit (cellAt (cells s) r' c') \<noteq> Some i"
  proof (cases "r' = row (position (heap s i)) \<and> c' = col (position (heap s i))
                 \<and> isVisible (cellAt (cells s) r' c')")
    case True
    then have "cellAt (cells s') r' c' = (cellAt (cells s) r' c')\<lparr> unit := None \<rparr>"
      unfolding here using ne by auto
    then show ?thesis by simp
  next
    case False
    then have same: "cellAt (cells s') r' c' = cellAt (cells s) r' c'"
      unfolding here using ne by auto
    have "unit (cellAt (cells s) r' c') \<noteq> Some i"
    proof
      assume "unit (cellAt (cells s) r' c') = Some i"
      then have "isVisible (cellAt (cells s) r' c')" "position (heap s i) = \<lparr> row = r', col = c' \<rparr>"
        using old by simp_all
      then show False using False by simp
    qed
    then show ?thesis by (simp add: same)
  qed
qed

lemma wellPlaced_moveUnit:
  assumes wp: "wellPlaced s"
  shows "wellPlaced (snd (moveUnit u r c s))"
proof (cases "canMove s u r c")
  case False
  then show ?thesis using wp by (simp add: moveUnit_failure)
next
  case True
  then obtain i where u: "u = Some i" by (auto simp add: canMove_def split: option.splits)
  have cm: "canMove s (Some i) r c" using True u by simp
  then have b: "inBounds (cells s) r c" and v: "isVisible (cellAt (cells s) r c)"
    and m: "1 \<le> movementRemaining (heap s i)"
    by (simp_all add: canMove_def)
  have "wellPlaced (moveCells i r c s)"
    by (rule wellPlaced_relocated
          [OF wp relocatedI [OF wp b inBounds_moveCells cellAt_moveCells] v moveCells_heap [OF m]])
       simp_all
  then show ?thesis
    unfolding u by (rule wellPlaced_sameButHighlight [OF moveUnit_success(2) [OF cm]])
qed

lemma inBounds_placeCells [simp]:
  "inBounds (cells (placeCells i r c s)) r' c' = inBounds (cells s) r' c'"
  by (simp add: placeCells_def Let_def split: option.split)

lemma placeCells_alt:
  "placeCells i r c s =
     (let pos = position (heap s i);
          s1 = (case getCell s (row pos) (col pos) of
                  Some oldCell \<Rightarrow> updCell (row pos) (col pos) (\<lambda>cell. cell\<lparr> unit := None \<rparr>) s
                | None \<Rightarrow> s);
          s2 = (if i \<notin> set (units s1) then s1\<lparr> units := units s1 @ [i] \<rparr> else s1);
          s3 = s2\<lparr> heap := (heap s2)(i := (heap s2 i)\<lparr> position := \<lparr> row = r, col = c \<rparr> \<rparr>) \<rparr>
      in updCell r c (\<lambda>cell. cell\<lparr> unit := Some i \<rparr>) s3)"
proof (cases "0 \<le> row (position (heap s i))")
  case r0: True
  show ?thesis
  proof (cases "0 \<le> col (position (heap s i))")
    case True
    then show ?thesis using r0 by (simp add: placeCells_def Let_def)
  next
    case False
    then have "getCell s (row (position (heap s i))) (col (position (heap s i))) = None"
      by (simp add: getCell_None_iff inBounds_def)
    then show ?thesis using False by (simp add: placeCells_def Let_def)
  qed
next
  case False
  then have "getCell s (row (position (heap s i))) (col (position (heap s i))) = None"
    by (simp add: getCell_None_iff inBounds_def)
  then show ?thesis using False by (simp add: placeCells_def Let_def)
qed

lemma cellAt_placeCells:
  assumes "inBounds (cells s) r' c'"
  shows "cellAt (cells (placeCells i r c s)) r' c' =
     (if r' = r \<and> c' = c then
        (if r = row (position (heap s i)) \<and> c = col (position (heap s i))
            \<and> isVisible (cellAt (cells s) r c)
         then (cellAt (cells s) r c)\<lparr> unit := None, unit := Some i \<rparr>
         else (cellAt (cells s) r c)\<lparr> unit := Some i \<rparr>)
      else if r' = row (position (heap s i)) \<and> c' = col (position (heap s i))
              \<and> isVisible (cellAt (cells s) r' c')
           then (cellAt (cells s) r' c')\<lparr> unit := None \<rparr>
           else cellAt (cells s) r' c')"
  using assms
  by (auto simp add: placeCells_alt Let_def cellAt_updCell getCell_Some_iff getCell_None_iff
      split: option.split)

lemma placeUnit_cases:
  assumes res: "placeUnit u r c s = Inr (ok, s')"
  shows "(\<not> ok \<and> s' = s)
     \<or> (\<exists>i. u = Some i \<and> inBounds (cells s) r c \<and> isVisible (cellAt (cells s) r c)
             \<and> s' = placeCells i r c s)"
proof (cases "getCell s r c")
  case None
  then show ?thesis using res by (simp add: placeUnit_def)
next
  case (Some cell)
  then have b: "inBounds (cells s) r c" and c: "cell = cellAt (cells s) r c"
    by (simp_all add: getCell_Some_iff)
  show ?thesis
  proof (cases "isVisible cell \<and> unit cell = None")
    case False
    then show ?thesis using res Some by (auto simp add: placeUnit_def)
  next
    case free: True
    show ?thesis
    proof (cases u)
      case None
      then show ?thesis using res Some free by (simp add: placeUnit_def)
    next
      case (Some i)
      have "placeUnit (Some i) r c s = Inr (True, placeCells i r c s)"
        using \<open>getCell s r c = Some cell\<close> free by (simp add: placeUnit_def placeCells_def Let_def)
      then show ?thesis
        using res Some b c free by simp
    qed
  qed
qed

lemma heap_placeCells:
  "heap (placeCells i r c s) = (heap s)(i := (heap s i)\<lparr> position := \<lparr> row = r, col = c \<rparr> \<rparr>)"
  by (simp add: placeCells_alt Let_def split: option.splits)

lemma wellPlaced_placeCells:
  assumes wp: "wellPlaced s" and b: "inBounds (cells s) r c" and v: "isVisible (cellAt (cells s) r c)"
  shows "wellPlaced (placeCells i r c s)"
  by (rule wellPlaced_relocated
        [OF wp relocatedI [OF wp b inBounds_placeCells cellAt_placeCells] v heap_placeCells])
     simp_all

lemma wellPlaced_placeUnit:
  assumes "wellPlaced s" and "placeUnit u r c s = Inr (ok, s')"
  shows "wellPlaced s'"
  using placeUnit_cases [OF assms(2)] assms(1)
  by (auto simp add: wellPlaced_placeCells)

lemma wellPlaced_applyOp: "wellPlaced s \<Longrightarrow> wellPlaced (applyOp op s)"
proof (cases op)
  case (PlaceUnit u r c)
  assume wp: "wellPlaced s"
  show ?thesis
  proof (cases "placeUnit u r c s")
    case (Inl e)
    then show ?thesis using wp PlaceUnit by simp
  next
    case (Inr res)
    obtain ok s' where "res = (ok, s')" by (cases res)
    with Inr wp show ?thesis
      using wellPlaced_placeUnit [of s u r c ok s'] PlaceUnit by simp
  qed
qed (simp_all add: wellPlaced_initializeCellStates wellPlaced_addUnit wellPlaced_removeUnit
      wellPlaced_moveUnit wellPlaced_selectUnit wellPlaced_endTurn wellPlaced_toggleCellState
      wellPlaced_clearHighlightedCells wellPlaced_runAITurn)

lemma wellPlaced_run: "wellPlaced s \<Longrightarrow> wellPlaced (run ops s)"
  unfolding run_def
  by (induction ops arbitrary: s) (simp_all add: wellPlaced_applyOp)

section \<open>The turn field is not read by the map operations\<close>

lemma getCell_currentTurn [simp]: "getCell (s\<lparr> currentTurn := t \<rparr>) r c = getCell s r c"
  by (simp add: getCell_def cellExists_def)

lemma bfs_currentTurn:
  "bfs (s\<lparr> currentTurn := t \<rparr>) rng p queue visited result = bfs s rng p queue visited result"
proof (induction s rng p queue visited result rule: bfs.induct)
  case (1 s rng p visited result)
  show ?case by (simp add: bfs.simps)
next
  case (2 s rng p r c dist queue visited result)
  show ?case
  proof (cases "getCell s r c")
    case None
    then show ?thesis using "2.IH"(1) by (simp add: bfs.simps)
  next
    case (Some cell)
    show ?thesis
      using Some "2.IH"(2-5) [OF Some]
      by (simp add: bfs.simps)
  qed
qed

lemma getCellsInRange_currentTurn [simp]:
  "getCellsInRange (s\<lparr> currentTurn := t \<rparr>) r c rng p = getCellsInRange s r c rng p"
  by (simp add: getCellsInRange_def bfs_currentTurn cellExists_def)

lemma updCell_currentTurn:
  "updCell r c f (s\<lparr> currentTurn := t \<rparr>) = (updCell r c f s)\<lparr> currentTurn := t \<rparr>"
  by (simp add: updCell_def)

lemma fold_updCell_currentTurn:
  "fold (\<lambda>(r, c). updCell r c f) xs (s\<lparr> currentTurn := t \<rparr>)
     = (fold (\<lambda>(r, c). updCell r c f) xs s)\<lparr> currentTurn := t \<rparr>"
  by (induction xs arbitrary: s) (auto simp add: updCell_currentTurn)

lemma clearHighlightedCells_currentTurn:
  "clearHighlightedCells (s\<lparr> currentTurn := t \<rparr>) = (clearHighlightedCells s)\<lparr> currentTurn := t \<rparr>"
  by (simp add: clearHighlightedCells_def)

lemma highlightMovementRange_currentTurn:
  "highlightMovementRange u (s\<lparr> currentTurn := t \<rparr>) = (highlightMovementRange u s)\<lparr> currentTurn := t \<rparr>"
  by (simp add: highlightMovementRange_def Let_def fold_updCell_currentTurn split: option.split)

lemma moveUnit_currentTurn:
  "moveUnit u r c (s\<lparr> currentTurn := t \<rparr>)
     = (fst (moveUnit u r c s), (snd (moveUnit u r c s))\<lparr> currentTurn := t \<rparr>)"
proof (cases "canMove s u r c")
  case False
  then have "\<not> canMove (s\<lparr> currentTurn := t \<rparr>) u r c"
    by (simp add: canMove_def split: option.splits)
  then show ?thesis using False by (simp add: moveUnit_failure)
next
  case True
  then obtain i where u: "u = Some i" by (auto simp add: canMove_def split: option.splits)
  have g: "getCell s r c = Some (cellAt (cells s) r c)"
    and v: "isVisible (cellAt (cells s) r c)" and e: "unit (cellAt (cells s) r c) = None"
    and m: "1 \<le> movementRemaining (heap s i)"
    using True u by (simp_all add: canMove_def getCell_Some_iff)
  have upd: "s\<lparr>currentTurn := t, heap := h\<rparr> = (s\<lparr>heap := h\<rparr>)\<lparr>currentTurn := t\<rparr>" for h
    by simp
  show ?thesis
    unfolding u
    by (simp add: moveUnit_def g v e m move_def Let_def upd updCell_currentTurn
        clearHighlightedCells_currentTurn highlightMovementRange_currentTurn
        split: option.split del: mapState.simps)
qed

lemma handleClicks_ai:
  "currentTurn s = ''ai'' \<Longrightarrow> fold (\<lambda>(dragging, beyond, hit). handleClick dragging beyond hit) clicks s = s"
  by (induction clicks) (auto simp add: handleClick_def)

section \<open>Grid store: lookup\<close>

text \<open>
  C9, as the code has it. \<open>getCell\<close> goes through \<open>cellExists\<close>, which also tests
  \<open>isVisible\<close>: \<open>getCell(row, col)\<close> returns the stored cell when \<open>(row, col)\<close> is within
  the bounds of the grid and the cell is visible, it returns \<open>null\<close> exactly when
  \<open>(row, col)\<close> is out of bounds or the cell there is invisible, and \<open>cellExists\<close> is
  false for every \<open>(row, col)\<close> outside the bounds.
\<close>

theorem getCell_visible_in_bounds:
  "(inBounds (cells s) r c \<and> isVisible (cellAt (cells s) r c)
      \<longrightarrow> getCell s r c = Some (cellAt (cells s) r c))
   \<and> (getCell s r c = None \<longleftrightarrow> \<not> inBounds (cells s) r c \<or> \<not> isVisible (cellAt (cells s) r c))
   \<and> (\<not> inBounds (cells s) r c \<longrightarrow> \<not> cellExists s r c)"
  by (simp add: getCell_def cellExists_def)

theorem getCell_visible_in_bounds_witness:
  "inBounds (cells demoState) 0 0 \<and> isVisible (cellAt (cells demoState) 0 0)
   \<and> getCell demoState 0 0 = Some (cellAt (cells demoState) 0 0)
   \<and> \<not> inBounds (cells demoState) 6 0 \<and> getCell demoState 6 0 = None
   \<and> \<not> cellExists demoState 6 0"
  using getCell_visible_in_bounds [of demoState 0 0] getCell_visible_in_bounds [of demoState 6 0]
  by (simp add: demoState_def inBounds_def cellAt_def initializeCellStates_def
      initialMapState_def defaultGridConfig_def newCell_def)

text \<open>
  C9 as the claim words it fails: on the default grid the cell (1,1) is within the bounds
  and invisible, and \<open>getCell(1, 1)\<close> is \<open>null\<close>.
\<close>

theorem getCell_invisible_counterexample:
  "inBounds (cells demoState) 1 1 \<and> getCell demoState 1 1 = None"
  by (simp add: demoState_def getCell_def cellExists_def inBounds_def cellAt_def
      initializeCellStates_def initialMapState_def defaultGridConfig_def newCell_def)

section \<open>Range query: the degenerate cases\<close>

text \<open>
  C7. \<open>getCellsInRange(r, c, 0, p)\<close> is the singleton of the cell at \<open>(r, c)\<close> when that
  cell exists, is visible and satisfies \<open>p\<close>, and is empty otherwise; for a negative range,
  and for an origin that is out of bounds or invisible, the result is empty.
\<close>

theorem getCellsInRange_zero:
  "getCellsInRange s r c 0 p =
     (if inBounds (cells s) r c \<and> isVisible (cellAt (cells s) r c) \<and> p (cellAt (cells s) r c)
      then [(r, c)] else [])
   \<and> (rng < 0 \<or> \<not> inBounds (cells s) r c \<or> \<not> isVisible (cellAt (cells s) r c)
        \<longrightarrow> getCellsInRange s r c rng p = [])"
  by (auto simp add: getCellsInRange_def getCell_def cellExists_def bfs.simps)

theorem getCellsInRange_zero_witness:
  "inBounds (cells demoState) 0 0 \<and> isVisible (cellAt (cells demoState) 0 0)
   \<and> getCellsInRange demoState 0 0 0 (\<lambda>cell. True) = [(0, 0)]
   \<and> getCellsInRange demoState 0 0 0 (\<lambda>cell. False) = []
   \<and> getCellsInRange demoState 0 0 (-1) (\<lambda>cell. True) = []
   \<and> inBounds (cells demoState) 1 1 \<and> \<not> isVisible (cellAt (cells demoState) 1 1)
   \<and> getCellsInRange demoState 1 1 2 (\<lambda>cell. True) = []
   \<and> \<not> inBounds (cells demoState) 6 0
   \<and> getCellsInRange demoState 6 0 2 (\<lambda>cell. True) = []"
  using getCellsInRange_zero [of demoState 0 0 "\<lambda>cell. True" "-1"]
    getCellsInRange_zero [of demoState 0 0 "\<lambda>cell. False" 0]
    getCellsInRange_zero [of demoState 1 1 "\<lambda>cell. True" 2]
    getCellsInRange_zero [of demoState 6 0 "\<lambda>cell. True" 2]
  by (simp add: demoState_def inBounds_def cellAt_def initializeCellStates_def
      initialMapState_def defaultGridConfig_def newCell_def)

section \<open>Range query: blocked cells and duplicates\<close>

text \<open>
  C3. When the dequeued coordinate refers to a cell that does not exist, is invisible or
  fails the predicate, the loop goes on with the rest of the queue, the same visited set
  and the same result: the cell is not added and none of its neighbours is enqueued.
  Consequently a cell that no admissible path (within the range) leads to from the origin
  is not in the result of \<open>getCellsInRange\<close>; and the result has no duplicates.
\<close>

theorem getCellsInRange_blocked:
  "(\<not> admissible s p (r, c)
      \<longrightarrow> bfs s rng p ((r, c, d) # queue) visited result = bfs s rng p queue visited result)
   \<and> ((\<forall>n. int n \<le> rng \<longrightarrow> \<not> admissiblePath s p (r0, c0) n x)
      \<longrightarrow> x \<notin> set (getCellsInRange s r0 c0 rng p))
   \<and> distinct (getCellsInRange s r0 c0 rng p)"
proof (intro conjI impI)
  assume "\<not> admissible s p (r, c)"
  then show "bfs s rng p ((r, c, d) # queue) visited result = bfs s rng p queue visited result"
    by (rule bfs_skip)
next
  assume no: "\<forall>n. int n \<le> rng \<longrightarrow> \<not> admissiblePath s p (r0, c0) n x"
  show "x \<notin> set (getCellsInRange s r0 c0 rng p)"
  proof (cases "rng < 0 \<or> \<not> cellExists s r0 c0")
    case True
    then show ?thesis by (simp add: getCellsInRange_def)
  next
    case False
    then have "\<forall>e \<in> set [(r0, c0, 0)]. pending s p (r0, c0) rng e"
      by (simp add: pending_def admissiblePath.start)
    then have "\<forall>y \<in> set (bfs s rng p [(r0, c0, 0)] {} []). reached s p (r0, c0) rng y"
      by (rule bfs_sound) simp
    then show ?thesis
      using no False by (auto simp add: getCellsInRange_def reached_def)
  qed
next
  show "distinct (getCellsInRange s r0 c0 rng p)"
    by (simp add: getCellsInRange_def bfs_distinct)
qed

theorem getCellsInRange_blocked_witness:
  "\<not> admissible demoState wall (0, 1)
   \<and> bfs demoState 2 wall [(0, 1, 1), (1, 0, 1)] {(0, 0)} [(0, 0)]
       = bfs demoState 2 wall [(1, 0, 1)] {(0, 0)} [(0, 0)]
   \<and> admissible demoState wall (2, 2)
   \<and> (2, 2) \<notin> set (getCellsInRange demoState 0 0 2 wall)
   \<and> getCellsInRange demoState 0 0 2 wall = [(0, 0)]
   \<and> distinct (getCellsInRange demoState 0 0 2 wall)"
proof -
  have blocked: "\<not> admissible demoState wall (0, 1)" and free: "admissible demoState wall (2, 2)"
    and res: "getCellsInRange demoState 0 0 2 wall = [(0, 0)]"
    by code_simp+
  have ring: "\<forall>y \<in> set (neighbors 0 0). \<not> admissible demoState wall y"
    by code_simp
  have home: "x = (0, 0)" if "admissiblePath demoState wall (0, 0) n x" for n x
    using that
  proof (induction rule: admissiblePath.induct)
    case start
    show ?case by simp
  next
    case (step n x y)
    then show ?case using ring by simp
  qed
  have cut: "\<forall>n. int n \<le> 2 \<longrightarrow> \<not> admissiblePath demoState wall (0, 0) n (2, 2)"
    using home by fastforce
  show ?thesis
    using getCellsInRange_blocked [of demoState wall 0 1 2 1 "[(1, 0, 1)]" "{(0, 0)}" "[(0, 0)]" 0 0 "(2, 2)"]
      blocked free cut res
    by simp
qed

section \<open>Roster\<close>

text \<open>
  C8. \<open>addUnit\<close> pushes without looking: adding unit 0 twice leaves it twice in the
  roster, where \<open>placeUnit\<close> tests \<open>includes\<close> before it pushes; \<open>removeUnit\<close> then
  removes one of the two entries only.
\<close>

theorem addUnit_twice_duplicates:
  "addUnit (Some 0) (snd (addUnit (Some 0) demoState)) = (True, demoState\<lparr> units := [0, 0] \<rparr>)
   \<and> units (snd (removeUnit (Some 0) (demoState\<lparr> units := [0, 0] \<rparr>))) = [0]"
  by (simp add: addUnit_def removeUnit_def Let_def demoState_def initializeCellStates_def
      initialMapState_def demoHeap_def newUnit_def)

section \<open>Turn switching\<close>

text \<open>
  C4. \<open>endTurn()\<close> flips \<open>currentTurn\<close> between \<open>'player'\<close> and \<open>'ai'\<close>; afterwards
  every roster unit whose owner is the new \<open>currentTurn\<close> is the unit it was with
  \<open>movementRemaining\<close> set to its \<open>movement\<close> and \<open>hasAttacked\<close> set to false, and every
  roster unit of another owner is unchanged in all fields.
\<close>

theorem endTurn_flips_and_resets:
  "currentTurn (endTurn s) = (if currentTurn s = ''player'' then ''ai'' else ''player'')
   \<and> (currentTurn s \<in> {''player'', ''ai''}
        \<longrightarrow> currentTurn (endTurn s) \<in> {''player'', ''ai''} \<and> currentTurn (endTurn s) \<noteq> currentTurn s)
   \<and> (\<forall>i \<in> set (units s).
         (owner (heap s i) = currentTurn (endTurn s)
            \<longrightarrow> heap (endTurn s) i
                  = (heap s i)\<lparr> movementRemaining := movement (heap s i), hasAttacked := False \<rparr>)
       \<and> (owner (heap s i) \<noteq> currentTurn (endTurn s)
            \<longrightarrow> heap (endTurn s) i = heap s i))"
  by (auto simp add: endTurn_heap endTurn_currentTurn resetTurn_def)

theorem endTurn_flips_and_resets_witness:
  "currentTurn turnState = ''player'' \<and> currentTurn (endTurn turnState) = ''ai''
   \<and> 0 \<in> set (units turnState) \<and> 1 \<in> set (units turnState)
   \<and> owner (heap turnState 1) = ''ai'' \<and> movement (heap turnState 1) = 3
   \<and> movementRemaining (heap turnState 1) = 0 \<and> hasAttacked (heap turnState 1) = True
   \<and> heap (endTurn turnState) 1 = newUnit ''knight'' ''ai'' 12 5 3
   \<and> movementRemaining (heap (endTurn turnState) 1) = 3
   \<and> hasAttacked (heap (endTurn turnState) 1) = False
   \<and> owner (heap turnState 0) = ''player''
   \<and> heap (endTurn turnState) 0 = heap turnState 0"
proof -
  have t: "currentTurn turnState = ''player''" and u: "units turnState = [0, 1]"
    and h1: "heap turnState (Suc 0) = (newUnit ''knight'' ''ai'' 12 5 3)\<lparr> movementRemaining := 0, hasAttacked := True \<rparr>"
    and o0: "owner (heap turnState 0) = ''player''"
    by (simp_all add: turnState_def demoState_def initializeCellStates_def initialMapState_def
        demoHeap_def newUnit_def)
  show ?thesis
    using endTurn_flips_and_resets [of turnState]
    by (simp add: t u h1 o0 newUnit_def)
qed

section \<open>Moving a unit\<close>

text \<open>
  C10. A unit that is not on the board (position (-1,-1)) and has at least one point of
  movement left can be moved by \<open>moveUnit\<close> onto any existing, visible, unoccupied cell:
  the call succeeds, the unit's position and the cell's unit reference are set, and
  \<open>movementRemaining\<close> drops by exactly 1.
\<close>

theorem moveUnit_unplaced:
  assumes "position (heap s i) = \<lparr> row = -1, col = -1 \<rparr>"
    and "1 \<le> movementRemaining (heap s i)"
    and "inBounds (cells s) r c" and "isVisible (cellAt (cells s) r c)"
    and "unit (cellAt (cells s) r c) = None"
  shows "fst (moveUnit (Some i) r c s)
    \<and> position (heap (snd (moveUnit (Some i) r c s)) i) = \<lparr> row = r, col = c \<rparr>
    \<and> unit (cellAt (cells (snd (moveUnit (Some i) r c s))) r c) = Some i
    \<and> movementRemaining (heap (snd (moveUnit (Some i) r c s)) i) = movementRemaining (heap s i) - 1"
proof -
  have cm: "canMove s (Some i) r c"
    using assms by (simp add: canMove_def)
  note sb = moveUnit_success(2) [OF cm]
  have h: "heap (snd (moveUnit (Some i) r c s)) = heap (moveCells i r c s)"
    using sb by (simp add: sameButHighlight_def)
  have u: "unit (cellAt (cells (snd (moveUnit (Some i) r c s))) r c) = Some i"
    using sameButHighlight_cell(1) [OF sb, of r c] assms(3)
    by (simp add: cellAt_moveCells_target)
  show ?thesis
    using moveUnit_success(1) [OF cm] u assms(2)
    by (simp add: h moveCells_heap)
qed

theorem moveUnit_unplaced_witness:
  "position (heap demoState 0) = \<lparr> row = -1, col = -1 \<rparr>
   \<and> 1 \<le> movementRemaining (heap demoState 0)
   \<and> inBounds (cells demoState) 3 3 \<and> isVisible (cellAt (cells demoState) 3 3)
   \<and> unit (cellAt (cells demoState) 3 3) = None
   \<and> fst (moveUnit (Some 0) 3 3 demoState)
   \<and> position (heap (snd (moveUnit (Some 0) 3 3 demoState)) 0) = \<lparr> row = 3, col = 3 \<rparr>
   \<and> unit (cellAt (cells (snd (moveUnit (Some 0) 3 3 demoState))) 3 3) = Some 0
   \<and> movementRemaining (heap (snd (moveUnit (Some 0) 3 3 demoState)) 0) = 1"
proof -
  have a: "position (heap demoState 0) = \<lparr> row = -1, col = -1 \<rparr>"
    and b: "movementRemaining (heap demoState 0) = 2"
    and c: "inBounds (cells demoState) 3 3" and d: "isVisible (cellAt (cells demoState) 3 3)"
    and e: "unit (cellAt (cells demoState) 3 3) = None"
    by (simp_all add: demoState_def demoHeap_def newUnit_def inBounds_def cellAt_def
        initializeCellStates_def initialMapState_def defaultGridConfig_def newCell_def)
  show ?thesis
    using moveUnit_unplaced [OF a _ c d e] a b c d e by simp
qed

text \<open>
  C1, as the code has it. \<open>moveUnit(u, r, c)\<close> makes no distance or path test of its
  own: it succeeds if and only if \<open>u\<close> is not null, the cell \<open>(r, c)\<close> is within the bounds,
  visible and unoccupied, and \<open>u\<close> has at least one point of movement left. On success
  \<open>u.position\<close> becomes \<open>(r, c)\<close>, the target cell's unit reference becomes \<open>u\<close>, the unit
  reference of the cell at \<open>u\<close>'s former position becomes null when that position is a
  visible cell of the grid other than the target, and for a target one hex away from
  \<open>u\<close>'s position \<open>u.movementRemaining\<close> decreases by exactly 1. Nothing is stated about
  the charge for a longer move.
\<close>

theorem moveUnit_tests_and_references:
  "(fst (moveUnit u r c s) \<longleftrightarrow>
      (\<exists>i. u = Some i \<and> inBounds (cells s) r c \<and> isVisible (cellAt (cells s) r c)
           \<and> unit (cellAt (cells s) r c) = None \<and> 1 \<le> movementRemaining (heap s i)))
   \<and> (\<forall>i. u = Some i \<and> fst (moveUnit u r c s) \<longrightarrow>
         position (heap (snd (moveUnit u r c s)) i) = \<lparr> row = r, col = c \<rparr>
         \<and> unit (cellAt (cells (snd (moveUnit u r c s))) r c) = Some i
         \<and> (inBounds (cells s) (row (position (heap s i))) (col (position (heap s i)))
              \<and> isVisible (cellAt (cells s) (row (position (heap s i))) (col (position (heap s i))))
              \<and> (row (position (heap s i)), col (position (heap s i))) \<noteq> (r, c)
            \<longrightarrow> unit (cellAt (cells (snd (moveUnit u r c s)))
                         (row (position (heap s i))) (col (position (heap s i)))) = None)
         \<and> ((r, c) \<in> set (neighbors (row (position (heap s i))) (col (position (heap s i))))
            \<longrightarrow> movementRemaining (heap (snd (moveUnit u r c s)) i)
                  = movementRemaining (heap s i) - 1))"
proof (intro conjI allI impI; (elim conjE)?)
  show "fst (moveUnit u r c s) \<longleftrightarrow>
      (\<exists>i. u = Some i \<and> inBounds (cells s) r c \<and> isVisible (cellAt (cells s) r c)
           \<and> unit (cellAt (cells s) r c) = None \<and> 1 \<le> movementRemaining (heap s i))"
    by (rule moveUnit_Some_iff)
next
  fix i assume u: "u = Some i" and ok: "fst (moveUnit u r c s)"
  then have cm: "canMove s (Some i) r c" by (simp add: moveUnit_fst_iff)
  show "position (heap (snd (moveUnit u r c s)) i) = \<lparr> row = r, col = c \<rparr>"
    unfolding u by (simp add: moveUnit_post(1) [OF cm])
  show "unit (cellAt (cells (snd (moveUnit u r c s))) r c) = Some i"
    unfolding u by (rule moveUnit_post(2) [OF cm])
  show "movementRemaining (heap (snd (moveUnit u r c s)) i) = movementRemaining (heap s i) - 1"
    unfolding u by (simp add: moveUnit_post(1) [OF cm])
  assume "inBounds (cells s) (row (position (heap s i))) (col (position (heap s i)))"
    "isVisible (cellAt (cells s) (row (position (heap s i))) (col (position (heap s i))))"
    "(row (position (heap s i)), col (position (heap s i))) \<noteq> (r, c)"
  then show "unit (cellAt (cells (snd (moveUnit u r c s)))
                         (row (position (heap s i))) (col (position (heap s i)))) = None"
    unfolding u by (rule moveUnit_post(3) [OF cm])
qed

theorem moveUnit_tests_and_references_witness:
  "inBounds (cells placedState) 4 0 \<and> isVisible (cellAt (cells placedState) 4 0)
   \<and> unit (cellAt (cells placedState) 4 0) = None \<and> movementRemaining (heap placedState 0) = 2
   \<and> position (heap placedState 0) = \<lparr> row = 5, col = 0 \<rparr>
   \<and> inBounds (cells placedState) 5 0 \<and> isVisible (cellAt (cells placedState) 5 0)
   \<and> (4, 0) \<in> set (neighbors 5 0)
   \<and> fst (moveUnit (Some 0) 4 0 placedState)
   \<and> position (heap (snd (moveUnit (Some 0) 4 0 placedState)) 0) = \<lparr> row = 4, col = 0 \<rparr>
   \<and> unit (cellAt (cells (snd (moveUnit (Some 0) 4 0 placedState))) 4 0) = Some 0
   \<and> unit (cellAt (cells (snd (moveUnit (Some 0) 4 0 placedState))) 5 0) = None
   \<and> movementRemaining (heap (snd (moveUnit (Some 0) 4 0 placedState)) 0) = 1"
proof -
  have pre: "inBounds (cells placedState) 4 0" "isVisible (cellAt (cells placedState) 4 0)"
    "unit (cellAt (cells placedState) 4 0) = None" "movementRemaining (heap placedState 0) = 2"
    "position (heap placedState 0) = \<lparr> row = 5, col = 0 \<rparr>"
    "inBounds (cells placedState) 5 0" "isVisible (cellAt (cells placedState) 5 0)"
    "(4, 0) \<in> set (neighbors 5 0)"
    by code_simp+
  show ?thesis
    using moveUnit_tests_and_references [of "Some 0" 4 0 placedState] pre by simp
qed

text \<open>
  C1 as the claim words it fails: with unit 0 on (5,0) and two points of movement, the
  move to the far corner (0,5) succeeds, although (0,5) is not in the range query for
  \<open>movementRemaining\<close> under the empty-or-self predicate; and the move to (3,0), which is
  in range 2 and not in range 1, takes one point of movement, not two.
\<close>

theorem moveUnit_far_counterexample:
  "fst (moveUnit (Some 0) 0 5 placedState)
   \<and> (0, 5) \<notin> set (getCellsInRange placedState 5 0 (movementRemaining (heap placedState 0))
                      (\<lambda>cell. unit cell = Some 0 \<or> unit cell = None))
   \<and> movementRemaining (heap (snd (moveUnit (Some 0) 0 5 placedState)) 0)
       = movementRemaining (heap placedState 0) - 1
   \<and> (3, 0) \<in> set (getCellsInRange placedState 5 0 2 (\<lambda>cell. unit cell = Some 0 \<or> unit cell = None))
   \<and> (3, 0) \<notin> set (getCellsInRange placedState 5 0 1 (\<lambda>cell. unit cell = Some 0 \<or> unit cell = None))
   \<and> fst (moveUnit (Some 0) 3 0 placedState)
   \<and> movementRemaining (heap (snd (moveUnit (Some 0) 3 0 placedState)) 0)
       = movementRemaining (heap placedState 0) - 1"
  by code_simp

section \<open>Failure and the state\<close>

text \<open>
  C5, as the code has it. Whenever \<open>placeUnit\<close>, \<open>moveUnit\<close>, \<open>removeUnit\<close> or \<open>Unit.move\<close>
  returns false, the whole state is as it was before the call. \<open>toggleCellState\<close> returns
  false and leaves the state as it was whenever the cell is out of bounds or invisible;
  whenever it returns false the state is as it was, unless the cell was a visible active
  cell. \<open>performAttack\<close> returns 0 and leaves the unit as it was whenever the unit has
  already attacked; whenever it returns 0 the unit is as it was, unless the unit could
  attack and its attack strength is 0.
\<close>

theorem failure_leaves_state:
  "(placeUnit u r c s = Inr (False, s') \<longrightarrow> s' = s)
   \<and> (\<not> fst (moveUnit u r c s) \<longrightarrow> snd (moveUnit u r c s) = s)
   \<and> (\<not> fst (removeUnit u s) \<longrightarrow> snd (removeUnit u s) = s)
   \<and> (\<not> fst (move r c cost un) \<longrightarrow> snd (move r c cost un) = un)
   \<and> (\<not> (inBounds (cells s) r c \<and> isVisible (cellAt (cells s) r c))
        \<longrightarrow> toggleCellState r c s = (False, s))
   \<and> (\<not> fst (toggleCellState r c s)
        \<and> \<not> (inBounds (cells s) r c \<and> isVisible (cellAt (cells s) r c) \<and> isActive (cellAt (cells s) r c))
        \<longrightarrow> snd (toggleCellState r c s) = s)
   \<and> (\<not> canAttack un \<longrightarrow> performAttack un = (0, un))
   \<and> (fst (performAttack un) = 0 \<and> \<not> (canAttack un \<and> attack un = 0)
        \<longrightarrow> snd (performAttack un) = un)"
proof (intro conjI impI)
  assume "placeUnit u r c s = Inr (False, s')"
  then show "s' = s"
    by (auto simp add: placeUnit_def Let_def split: option.splits if_splits)
next
  assume "\<not> fst (moveUnit u r c s)"
  then show "snd (moveUnit u r c s) = s"
    by (simp add: moveUnit_fst_iff moveUnit_failure)
next
  assume "\<not> fst (removeUnit u s)"
  then show "snd (removeUnit u s) = s"
    by (auto simp add: removeUnit_def Let_def split: option.splits if_splits)
next
  assume "\<not> fst (move r c cost un)"
  then show "snd (move r c cost un) = un"
    by (simp add: move_def split: if_splits)
next
  assume "\<not> (inBounds (cells s) r c \<and> isVisible (cellAt (cells s) r c))"
  then show "toggleCellState r c s = (False, s)"
    by (auto simp add: toggleCellState_def)
next
  assume "\<not> fst (toggleCellState r c s)
        \<and> \<not> (inBounds (cells s) r c \<and> isVisible (cellAt (cells s) r c) \<and> isActive (cellAt (cells s) r c))"
  then show "snd (toggleCellState r c s) = s"
    by (auto simp add: toggleCellState_def split: if_splits)
next
  assume "\<not> canAttack un"
  then show "performAttack un = (0, un)"
    by (simp add: performAttack_def)
next
  assume "fst (performAttack un) = 0 \<and> \<not> (canAttack un \<and> attack un = 0)"
  then show "snd (performAttack un) = un"
    by (auto simp add: performAttack_def split: if_splits)
qed

theorem failure_leaves_state_witness:
  "placeUnit (Some 1) 5 0 placedState = Inr (False, placedState)
   \<and> \<not> fst (moveUnit (Some 1) 5 0 placedState) \<and> snd (moveUnit (Some 1) 5 0 placedState) = placedState
   \<and> \<not> fst (removeUnit (Some 1) placedState) \<and> snd (removeUnit (Some 1) placedState) = placedState
   \<and> \<not> fst (move 5 0 3 (demoHeap 0)) \<and> snd (move 5 0 3 (demoHeap 0)) = demoHeap 0
   \<and> inBounds (cells placedState) 1 1 \<and> \<not> isVisible (cellAt (cells placedState) 1 1)
   \<and> toggleCellState 1 1 placedState = (False, placedState)
   \<and> \<not> canAttack ((demoHeap 0)\<lparr> hasAttacked := True \<rparr>)
   \<and> attack ((demoHeap 0)\<lparr> hasAttacked := True \<rparr>) = 3
   \<and> performAttack ((demoHeap 0)\<lparr> hasAttacked := True \<rparr>) = (0, (demoHeap 0)\<lparr> hasAttacked := True \<rparr>)"
proof -
  have occ: "getCell placedState 5 0 = Some (cellAt (cells placedState) 5 0)"
    "unit (cellAt (cells placedState) 5 0) = Some 0"
    by code_simp+
  have p: "placeUnit (Some 1) 5 0 placedState = Inr (False, placedState)"
    by (simp add: placeUnit_def occ)
  have m: "\<not> fst (moveUnit (Some 1) 5 0 placedState)"
    by (simp add: moveUnit_def occ)
  have rm: "\<not> fst (removeUnit (Some 1) placedState)"
    by code_simp
  have mv: "\<not> fst (move 5 0 3 (demoHeap 0))"
    by code_simp
  have tg: "inBounds (cells placedState) 1 1" "\<not> isVisible (cellAt (cells placedState) 1 1)"
    by code_simp+
  have at: "\<not> canAttack ((demoHeap 0)\<lparr> hasAttacked := True \<rparr>)"
    "attack ((demoHeap 0)\<lparr> hasAttacked := True \<rparr>) = 3"
    by (simp_all add: canAttack_def demoHeap_def newUnit_def)
  show ?thesis
    using failure_leaves_state [of "Some 1" 5 0 placedState placedState 3 "demoHeap 0"]
      failure_leaves_state [of "Some 1" 1 1 placedState placedState 3 "(demoHeap 0)\<lparr> hasAttacked := True \<rparr>"]
      p m rm mv tg at
    by simp
qed

text \<open>
  C5 as the claim words it fails: \<open>toggleCellState\<close> returns the new activation state, so
  toggling the active cell (0,0) returns false and has switched the cell off; and
  \<open>performAttack\<close> returns the attack strength, so a unit of attack strength 0 that attacks
  returns 0 and has \<open>hasAttacked\<close> set.
\<close>

theorem failure_value_counterexample:
  "fst (toggleCellState 0 0 toggledState) = False
   \<and> isActive (cellAt (cells toggledState) 0 0) = True
   \<and> isActive (cellAt (cells (snd (toggleCellState 0 0 toggledState))) 0 0) = False
   \<and> fst (performAttack unarmedUnit) = 0
   \<and> hasAttacked unarmedUnit = False
   \<and> hasAttacked (snd (performAttack unarmedUnit)) = True"
  by code_simp

section \<open>Input during the AI's turn\<close>

text \<open>
  C6, as the code has it. While \<open>currentTurn\<close> is \<open>'ai'\<close>, every click on the canvas is
  rejected: \<open>handleClick\<close> returns at its turn test, so a click, and any sequence of
  clicks, leaves the whole state as it was, and no selection, move or toggle is made
  through the grid. \<open>moveUnit\<close> itself does not read \<open>currentTurn\<close>: called on either
  turn it gives the same result and the same state, up to the turn field. Nothing is
  stated about the End Turn button.
\<close>

theorem clicks_gated_on_turn:
  "(currentTurn s = ''ai'' \<longrightarrow> handleClick dragging beyond hit s = s)
   \<and> (currentTurn s = ''ai''
        \<longrightarrow> fold (\<lambda>(dragging, beyond, hit). handleClick dragging beyond hit) clicks s = s)
   \<and> moveUnit u r c (s\<lparr> currentTurn := t \<rparr>)
       = (fst (moveUnit u r c s), (snd (moveUnit u r c s))\<lparr> currentTurn := t \<rparr>)"
  by (simp add: handleClicks_ai moveUnit_currentTurn) (simp add: handleClick_def)

theorem clicks_gated_on_turn_witness:
  "currentTurn aiState = ''ai''
   \<and> handleClick False False (Some (5, 0)) aiState = aiState
   \<and> fold (\<lambda>(dragging, beyond, hit). handleClick dragging beyond hit)
        [(False, False, Some (5, 0)), (False, False, Some (4, 0))] aiState = aiState
   \<and> isActive (cellAt (cells aiState) 5 0) = False
   \<and> isActive (cellAt (cells (handleCellInteraction 5 0 aiState)) 5 0) = True
   \<and> moveUnit (Some 0) 4 0 (aiState\<lparr> currentTurn := ''player'' \<rparr>)
       = (True, (snd (moveUnit (Some 0) 4 0 aiState))\<lparr> currentTurn := ''player'' \<rparr>)"
proof -
  have a: "currentTurn aiState = ''ai''"
    and b: "isActive (cellAt (cells aiState) 5 0) = False"
      "isActive (cellAt (cells (handleCellInteraction 5 0 aiState)) 5 0) = True"
      "fst (moveUnit (Some 0) 4 0 aiState) = True"
    by code_simp+
  note gate = clicks_gated_on_turn [of aiState False False "Some (5, 0)"
      "[(False, False, Some (5, 0)), (False, False, Some (4, 0))]" "Some 0" 4 0 "''player''"]
  have c1: "handleClick False False (Some (5, 0)) aiState = aiState"
    using gate a by blast
  have c2: "fold (\<lambda>(dragging, beyond, hit). handleClick dragging beyond hit)
        [(False, False, Some (5, 0)), (False, False, Some (4, 0))] aiState = aiState"
    using gate a by blast
  have c3: "moveUnit (Some 0) 4 0 (aiState\<lparr> currentTurn := ''player'' \<rparr>)
       = (True, (snd (moveUnit (Some 0) 4 0 aiState))\<lparr> currentTurn := ''player'' \<rparr>)"
    using gate b(3) by simp
  show ?thesis
    using a b(1,2) c1 c2 c3 by blast
qed

text \<open>
  C6 as the claim words it fails: on the AI's turn \<open>moveUnit\<close> moves the player's unit 0
  from (5,0) to (4,0); and a click on the End Turn button, whose listener has no turn
  test, gives the turn back to the player while the AI's callback is still pending.
\<close>

theorem input_on_ai_turn_counterexample:
  "currentTurn aiState = ''ai'' \<and> aiTimers aiState = 1
   \<and> fst (moveUnit (Some 0) 4 0 aiState)
   \<and> position (heap aiState 0) = \<lparr> row = 5, col = 0 \<rparr>
   \<and> position (heap (snd (moveUnit (Some 0) 4 0 aiState)) 0) = \<lparr> row = 4, col = 0 \<rparr>
   \<and> currentTurn (endTurnButtonClick aiState) = ''player''
   \<and> aiTimers (endTurnButtonClick aiState) = 1"
  by code_simp

section \<open>Occupancy\<close>

text \<open>
  C2. In every state reached from the freshly initialised grid by any sequence of
  \<open>initializeCellStates\<close>, \<open>addUnit\<close>, \<open>removeUnit\<close>, \<open>placeUnit\<close>, \<open>moveUnit\<close>,
  \<open>selectUnit\<close>, \<open>endTurn\<close>, \<open>toggleCellState\<close> and \<open>clearHighlightedCells\<close> (and of firing
  AI callbacks), whatever the grid configuration and the units are, every cell with a
  unit reference holds a unit whose position is the cell's \<open>(rowIndex, cellIndex)\<close>, and
  no two cells hold the same unit.
\<close>

theorem occupancy_reachable:
  "occupancy (run ops (initializeCellStates gridConfig (initialMapState h)))"
  by (rule wellPlaced_occupancy [OF wellPlaced_run [OF wellPlaced_initializeCellStates]])

theorem occupancy_reachable_witness:
  "inBounds (cells (run demoGame demoState)) 4 0
   \<and> unit (cellAt (cells (run demoGame demoState)) 4 0) = Some 0
   \<and> row (position (heap (run demoGame demoState) 0)) = rowIndex (cellAt (cells (run demoGame demoState)) 4 0)
   \<and> col (position (heap (run demoGame demoState) 0)) = cellIndex (cellAt (cells (run demoGame demoState)) 4 0)
   \<and> unit (cellAt (cells (run demoGame demoState)) 5 0) = None
   \<and> units (run demoGame demoState) = [0]"
proof -
  have a: "inBounds (cells (run demoGame demoState)) 4 0"
    "unit (cellAt (cells (run demoGame demoState)) 4 0) = Some 0"
    "unit (cellAt (cells (run demoGame demoState)) 5 0) = None"
    "units (run demoGame demoState) = [0]"
    by code_simp+
  have "occupancy (run demoGame demoState)"
    unfolding demoState_def by (rule occupancy_reachable)
  then show ?thesis
    using a unfolding occupancy_def by blast
qed

end
